theory Spec2Isabelle
  imports
    Main
    "HOL-Library.Word"
    "HOL-Library.Multiset"
    "HOL-Library.Char_ord"
    "HOL-Library.List_Lexorder"
begin

section \<open>Byte buffers, memory faults and text\<close>

text \<open>
  The firmware (\<^verbatim>\<open>src/main.cpp\<close>) keeps attribute values in \<^verbatim>\<open>std::string\<close> byte
  buffers and prints Arduino \<^verbatim>\<open>String\<close>s. A buffer is a list of 8-bit words, a printed
  text is a \<^typ>\<open>string\<close>. A read at an index that is not below the buffer's size, and a
  dereference of a null pointer, are undefined behaviour in C++; the model returns them
  as a \<open>fault\<close>, so that "the code never does it" is a theorem and not an assumption.
\<close>

type_synonym byte = "8 word"
type_synonym bytes = "byte list"

datatype fault = OutOfBounds | NullDeref

definition byte_at :: "bytes \<Rightarrow> nat \<Rightarrow> fault + byte" where
  "byte_at raw i = (if i < length raw then Inr (raw ! i) else Inl OutOfBounds)"

text \<open>
  \<^verbatim>\<open>*(reinterpret_cast<const uint16_t*>(p))\<close> and its 32-bit sibling on the little-endian
  target: the byte at the lowest address is the least significant one. Every byte is
  fetched through \<open>byte_at\<close>.
\<close>

fun load_bytes :: "bytes \<Rightarrow> nat \<Rightarrow> nat \<Rightarrow> fault + nat" where
  "load_bytes raw off 0 = Inr 0"
| "load_bytes raw off (Suc n) =
     (case byte_at raw off of
        Inl e \<Rightarrow> Inl e
      | Inr b \<Rightarrow>
          (case load_bytes raw (Suc off) n of
             Inl e \<Rightarrow> Inl e
           | Inr hi \<Rightarrow> Inr (unat b + 256 * hi)))"

definition load_u16 :: "bytes \<Rightarrow> nat \<Rightarrow> fault + 16 word" where
  "load_u16 raw off = map_sum id word_of_nat (load_bytes raw off 2)"

definition load_u32 :: "bytes \<Rightarrow> nat \<Rightarrow> fault + 32 word" where
  "load_u32 raw off = map_sum id word_of_nat (load_bytes raw off 4)"

definition digit_char :: "nat \<Rightarrow> char" where
  "digit_char d = char_of (48 + d)"

text \<open>Decimal digits of a natural number, most significant first, no leading zero.\<close>

fun dec_digits :: "nat \<Rightarrow> string" where
  "dec_digits n =
     (if n < 10 then [digit_char n] else dec_digits (n div 10) @ [digit_char (n mod 10)])"

declare dec_digits.simps [simp del]

text \<open>\<^verbatim>\<open>String(uint8_t)\<close>: the Arduino constructor with its default base 10.\<close>

definition String_u8 :: "byte \<Rightarrow> string" where
  "String_u8 c = dec_digits (unat c)"

text \<open>
  \<^verbatim>\<open>String(const char*)\<close>: the bytes up to the first NUL, as characters.
\<close>

definition String_cstr :: "bytes \<Rightarrow> string" where
  "String_cstr raw = map (\<lambda>b. char_of (unat b)) (takeWhile (\<lambda>b. b \<noteq> 0) raw)"

text \<open>The text a byte buffer spells when every byte is taken as one character.\<close>

definition as_text :: "bytes \<Rightarrow> string" where
  "as_text raw = map (\<lambda>b. char_of (unat b)) raw"

section \<open>The numeric platform\<close>

text \<open>
  \<open>convertRawValue\<close> computes \<^verbatim>\<open>val * pow(10, exponent)\<close> in \<^verbatim>\<open>double\<close> and prints it
  with \<^verbatim>\<open>String(double, 2)\<close>. The conversion to \<^verbatim>\<open>double\<close>, \<^verbatim>\<open>pow\<close>, the
  multiplication and the printing belong to the C library and the Arduino core, not to
  this repository; they are the fields of a record the decoder takes as a parameter, with
  the type \<open>'d\<close> of doubles left open. Nothing is assumed of these operations, so nothing
  below says which digits a numeric format prints: what is proved of the decoder is what
  the source decides, and it holds for every such platform.
\<close>

record 'd fpu =
  of_int32 :: "int \<Rightarrow> 'd"
  of_float32 :: "32 word \<Rightarrow> 'd"
  pow10 :: "int \<Rightarrow> 'd"
  fmul :: "'d \<Rightarrow> 'd \<Rightarrow> 'd"
  String2 :: "'d \<Rightarrow> string"

section \<open>Attribute value decoder\<close>

text \<open>
  \<^verbatim>\<open>unitMap\<close>, the table from the unit code of a presentation-format descriptor to its
  symbol. The degree sign of \<^verbatim>\<open>"\<degree>C"\<close> is the two bytes C2 B0 of the source file's
  UTF-8.
\<close>

definition degC :: string where
  "degC = [CHR 0xC2, CHR 0xB0, CHR ''C'']"

definition unitMap :: "(16 word \<times> string) list" where
  "unitMap =
     [(0x2700, ''''), (0x2763, ''km/h''), (0x27AD, ''rpm''), (0x2701, ''m''),
      (0x27B1, degC), (0x27B3, ''%''), (0x27AE, ''V''), (0x27AC, ''A'')]"

definition unit_of :: "16 word \<Rightarrow> string" where
  "unit_of unitUUID = (case map_of unitMap unitUUID of Some u \<Rightarrow> u | None \<Rightarrow> '''')"

text \<open>
  \<^verbatim>\<open>String(scaledValue, 2) + unit\<close> with \<^verbatim>\<open>scaledValue = val * pow(10, exponent)\<close>;
  \<open>exponent\<close> is an \<^verbatim>\<open>int8_t\<close>.
\<close>

definition scaled :: "'d fpu \<Rightarrow> 'd \<Rightarrow> 8 word \<Rightarrow> 16 word \<Rightarrow> string" where
  "scaled P val exponent unitUUID =
     String2 P (fmul P val (pow10 P (sint exponent))) @ unit_of unitUUID"

text \<open>
  \<open>convertRawValue\<close>, case by case as the \<^verbatim>\<open>switch\<close> has them. A \<^verbatim>\<open>break\<close> and a
  format code without a case fall through to \<^verbatim>\<open>return ""\<close>.
\<close>

definition convertRawValue ::
  "'d fpu \<Rightarrow> bytes \<Rightarrow> 8 word \<Rightarrow> 8 word \<Rightarrow> 16 word \<Rightarrow> fault + string" where
  "convertRawValue P rawValue format exponent unitUUID =
     (if format = 0x01 then
        (if rawValue = [] then Inr ''false''
         else (case byte_at rawValue 0 of
                 Inl e \<Rightarrow> Inl e
               | Inr b \<Rightarrow> Inr (if b \<noteq> 0 then ''true'' else ''false'')))
      else if format = 0x04 then
        (if length rawValue < 4 then Inr ''''
         else (case load_u32 rawValue 0 of
                 Inl e \<Rightarrow> Inl e
               | Inr val \<Rightarrow> Inr (scaled P (of_int32 P (uint val)) exponent unitUUID)))
      else if format = 0x06 then
        (if length rawValue < 2 then Inr ''''
         else (case load_u16 rawValue 0 of
                 Inl e \<Rightarrow> Inl e
               | Inr val \<Rightarrow> Inr (scaled P (of_int32 P (uint val)) exponent unitUUID)))
      else if format = 0x08 then
        (if length rawValue < 4 then Inr ''''
         else (case load_u32 rawValue 0 of
                 Inl e \<Rightarrow> Inl e
               | Inr val \<Rightarrow> Inr (scaled P (of_int32 P (sint val)) exponent unitUUID)))
      else if format = 0x0A then
        (if length rawValue < 2 then Inr ''''
         else (case load_u16 rawValue 0 of
                 Inl e \<Rightarrow> Inl e
               | Inr val \<Rightarrow> Inr (scaled P (of_int32 P (sint val)) exponent unitUUID)))
      else if format = 0x0E then
        (if length rawValue < 4 then Inr ''''
         else (case load_u32 rawValue 0 of
                 Inl e \<Rightarrow> Inl e
               | Inr val \<Rightarrow> Inr (scaled P (of_float32 P val) exponent unitUUID)))
      else Inr '''')"

text \<open>
  \<open>fallbackConvert\<close>. Whether \<^verbatim>\<open>char\<close> is signed is the compiler's choice, and the
  first loop compares \<^verbatim>\<open>char\<close>s with 32 and 126; \<open>char_signed\<close> is that choice. The loop
  leaves at the first byte that fails the test.
\<close>

definition char_val :: "bool \<Rightarrow> byte \<Rightarrow> int" where
  "char_val char_signed c = (if char_signed then sint c else uint c)"

fun isAscii :: "bool \<Rightarrow> bytes \<Rightarrow> bool" where
  "isAscii char_signed [] = True"
| "isAscii char_signed (c # cs) =
     (if char_val char_signed c < 32 \<or> char_val char_signed c > 126 then False
      else isAscii char_signed cs)"

definition fallbackConvert :: "bool \<Rightarrow> bytes \<Rightarrow> string" where
  "fallbackConvert char_signed rawValue =
     (if rawValue = [] then ''''
      else if isAscii char_signed rawValue then String_cstr rawValue
      else fold (\<lambda>c out. out @ String_u8 c @ '' '') rawValue '''')"

text \<open>
  What the decoder's contract says in its own words, to compare with the code: the
  little-endian value of a byte sequence, unsigned and in two's complement, and the
  printable range.
\<close>

fun le_unsigned :: "bytes \<Rightarrow> int" where
  "le_unsigned [] = 0"
| "le_unsigned (b # bs) = uint b + 256 * le_unsigned bs"

definition le_signed :: "bytes \<Rightarrow> int" where
  "le_signed bs =
     (if le_unsigned bs < 2 ^ (8 * length bs - 1) then le_unsigned bs
      else le_unsigned bs - 2 ^ (8 * length bs))"

definition printable :: "byte \<Rightarrow> bool" where
  "printable b = (32 \<le> unat b \<and> unat b \<le> 126)"

section \<open>Identifiers, the remote attribute tree and what the radio hears\<close>

datatype uuid = Uuid16 "16 word" | Uuid128 string

definition DIS_UUID :: uuid where
  "DIS_UUID = Uuid16 0x180A"

definition TEMP_UUID :: uuid where
  "TEMP_UUID = Uuid128 ''B1F8799E-4999-4F4A-AF05-B5A6FB6AB55D''"

definition CSCP_UUID :: uuid where
  "CSCP_UUID = Uuid16 0x1816"

definition USER_UUID :: uuid where
  "USER_UUID = Uuid128 ''B1F879A7-4999-4F4A-AF05-B5A6FB6AB55D''"

definition BATTERY_UUID :: uuid where
  "BATTERY_UUID = Uuid16 0x180F"

definition CONTROL_UUID :: uuid where
  "CONTROL_UUID = Uuid128 ''B1F879B4-4999-4F4A-AF05-B5A6FB6AB55D''"

definition CONTROL_REG_UUID :: uuid where
  "CONTROL_REG_UUID = Uuid128 ''B1F879B5-4999-4F4A-AF05-B5A6FB6AB55D''"

definition CPF_DESC_UUID :: uuid where
  "CPF_DESC_UUID = Uuid16 0x2904"

definition TARGET_DEVICE_PREFIX :: string where
  "TARGET_DEVICE_PREFIX = ''Skp''"

text \<open>
  What the BLE stack hands to the firmware. An advertisement may carry no name
  (\<^verbatim>\<open>haveName()\<close>). A characteristic's \<^verbatim>\<open>getDescriptors()\<close> may be null. A \<open>peer\<close> is how
  the device at an address answers a connection attempt: whether \<^verbatim>\<open>connect\<close> returns
  true, and what \<^verbatim>\<open>getServices()\<close> returns then (null, or the services). The stack's maps
  are lists in their iteration order.
\<close>

record advertised =
  adv_name :: "string option"
  adv_address :: string
  adv_rssi :: int

record descriptor =
  desc_uuid :: uuid
  desc_data :: bytes

record characteristic =
  char_uuid :: uuid
  canRead :: bool
  canWrite :: bool
  char_data :: bytes
  descriptors :: "descriptor list option"

record service =
  svc_uuid :: uuid
  characteristics :: "characteristic list"

record peer =
  accepts :: bool
  gatt :: "service list option"

text \<open>
  A \<^verbatim>\<open>BLEClient\<close> object: \<open>link_up\<close> is its \<^verbatim>\<open>isConnected()\<close>, \<open>remote\<close> the services it
  has discovered.
\<close>

record client =
  link_up :: bool
  remote :: "service list option"

text \<open>
  The calls the firmware makes on the BLE stack, in the order it makes them, and the
  value line \<open>exploreService\<close> prints for a characteristic. The other console lines are
  not modelled.
\<close>

datatype event =
    ScanClearResults
  | ScanStart nat
  | ClientCreate
  | ClientDisconnect
  | ClientDelete
  | ClientConnect string
  | CharRead uuid
  | DescRead uuid
  | CharWrite uuid bytes bool
  | Shown uuid string

section \<open>The session: the firmware's global variables\<close>

text \<open>
  \<^verbatim>\<open>foundDevices\<close> is a \<^verbatim>\<open>std::map\<close> from the address to a pair of a pointer to a copy
  of the advertisement and the signal strength: a list of entries in ascending key order
  (the map's iteration order), the pointer an option with \<open>None\<close> for null.
  \<^verbatim>\<open>std::string\<close> compares as the lexicographic order on unsigned bytes, which is the
  order of \<^typ>\<open>string\<close> here.
\<close>

type_synonym registry = "(string \<times> advertised option \<times> int) list"

record session =
  pClient :: "client option"
  targetDevice :: "advertised option"
  deviceFound :: bool
  isConnected :: bool
  scanCompleted :: bool
  waitingForUserInput :: bool
  foundDevices :: registry
  sortedDevices :: "(string \<times> int) list"
  transport :: "event list"

definition initial :: session where
  "initial =
     \<lparr> pClient = None, targetDevice = None, deviceFound = False, isConnected = False,
       scanCompleted = False, waitingForUserInput = False, foundDevices = [],
       sortedDevices = [], transport = [] \<rparr>"

text \<open>\<^verbatim>\<open>m[k] = v\<close> on a \<^verbatim>\<open>std::map\<close>: the entry is replaced, or inserted at its place.\<close>

fun map_assign :: "('k::linorder \<times> 'v) list \<Rightarrow> 'k \<Rightarrow> 'v \<Rightarrow> ('k \<times> 'v) list" where
  "map_assign [] k v = [(k, v)]"
| "map_assign ((k', v') # m) k v =
     (if k < k' then (k, v) # (k', v') # m
      else if k = k' then (k, v) # m
      else (k', v') # map_assign m k v)"

text \<open>
  \<^verbatim>\<open>m[k]\<close> read: a missing key is inserted with a value-initialised entry (a null pointer
  and 0) first.
\<close>

definition map_index :: "registry \<Rightarrow> string \<Rightarrow> registry \<times> (advertised option \<times> int)" where
  "map_index m k =
     (case map_of m k of
        Some v \<Rightarrow> (m, v)
      | None \<Rightarrow> (map_assign m k (None, 0), (None, 0)))"

text \<open>\<^verbatim>\<open>std::string::find\<close>: the first position where the needle occurs.\<close>

fun str_find :: "string \<Rightarrow> string \<Rightarrow> nat option" where
  "str_find [] needle = (if needle = [] then Some 0 else None)"
| "str_find (c # cs) needle =
     (if take (length needle) (c # cs) = needle then Some 0
      else map_option Suc (str_find cs needle))"

subsection \<open>Scanning and the registry\<close>

text \<open>\<open>MyAdvertisedDeviceCallbacks::onResult\<close>.\<close>

definition onResult :: "session \<Rightarrow> advertised \<Rightarrow> session" where
  "onResult s advertisedDevice =
     (case adv_name advertisedDevice of
        None \<Rightarrow> s
      | Some name \<Rightarrow>
          if str_find name TARGET_DEVICE_PREFIX = Some 0 then
            (let address = adv_address advertisedDevice;
                 rssi = adv_rssi advertisedDevice;
                 deviceCopy = Some advertisedDevice
             in s\<lparr>foundDevices := map_assign (foundDevices s) address (deviceCopy, rssi)\<rparr>)
          else s)"

text \<open>
  \<open>startScan\<close> up to the call that starts the five-second scan; the scan's completion
  callback is \<open>scanComplete\<close> below.
\<close>

definition startScan :: "session \<Rightarrow> session" where
  "startScan s =
     s\<lparr>foundDevices := [], scanCompleted := False, waitingForUserInput := False,
       transport := transport s @ [ScanClearResults, ScanStart 5]\<rparr>"

text \<open>
  The comparison \<open>displayFoundDevices\<close> sorts with, and \<^verbatim>\<open>std::sort\<close>. The C++ standard
  promises of \<^verbatim>\<open>std::sort\<close> that the result is a rearrangement of the input in which no
  later element is ordered strictly before an earlier one, and says nothing of the order
  of equivalent elements. The sorting routine is a parameter of the model;
  \<open>sort_contract\<close> is the standard's promise for one comparison.
\<close>

definition by_rssi :: "string \<times> int \<Rightarrow> string \<times> int \<Rightarrow> bool" where
  "by_rssi a b = (snd a > snd b)"

type_synonym 'a sorter = "('a \<Rightarrow> 'a \<Rightarrow> bool) \<Rightarrow> 'a list \<Rightarrow> 'a list"

definition sort_contract :: "'a sorter \<Rightarrow> ('a \<Rightarrow> 'a \<Rightarrow> bool) \<Rightarrow> bool" where
  "sort_contract std_sort cmp =
     (\<forall>xs. mset (std_sort cmp xs) = mset xs
           \<and> sorted_wrt (\<lambda>a b. \<not> cmp b a) (std_sort cmp xs))"

text \<open>
  The table loop of \<open>displayFoundDevices\<close>: each row reads \<^verbatim>\<open>foundDevices[address]\<close> and
  dereferences the pointer it finds for the device's name.
\<close>

fun show_rows :: "(string \<times> int) list \<Rightarrow> registry \<Rightarrow> fault + registry" where
  "show_rows [] reg = Inr reg"
| "show_rows (row # rows) reg =
     (case map_index reg (fst row) of
        (reg', deviceInfo) \<Rightarrow>
          (case fst deviceInfo of
             None \<Rightarrow> Inl NullDeref
           | Some d \<Rightarrow> show_rows rows reg'))"

definition displayFoundDevices :: "(string \<times> int) sorter \<Rightarrow> session \<Rightarrow> fault + session" where
  "displayFoundDevices std_sort s =
     (let snapshot = std_sort by_rssi (map (\<lambda>item. (fst item, snd (snd item))) (foundDevices s))
      in case show_rows snapshot (foundDevices s) of
           Inl e \<Rightarrow> Inl e
         | Inr reg' \<Rightarrow>
             Inr (s\<lparr>sortedDevices := snapshot, foundDevices := reg', waitingForUserInput := True\<rparr>))"

text \<open>The callback \<open>startScan\<close> registers for the end of a scan round.\<close>

definition scanComplete :: "(string \<times> int) sorter \<Rightarrow> session \<Rightarrow> fault + session" where
  "scanComplete std_sort s =
     (if foundDevices s = [] then Inr ((startScan s)\<lparr>scanCompleted := True\<rparr>)
      else (case displayFoundDevices std_sort s of
              Inl e \<Rightarrow> Inl e
            | Inr s' \<Rightarrow> Inr (s'\<lparr>scanCompleted := True\<rparr>)))"

text \<open>
  Two sorting routines that keep the standard's promise: insertion into a sorted
  prefix, taking the input from the left (the new element goes behind its equals, as the
  insertion sort of the GNU library does on short ranges) and from the right (the
  element goes behind equals that came after it).
\<close>

fun ins :: "('a \<Rightarrow> 'a \<Rightarrow> bool) \<Rightarrow> 'a \<Rightarrow> 'a list \<Rightarrow> 'a list" where
  "ins cmp x [] = [x]"
| "ins cmp x (y # ys) = (if cmp x y then x # y # ys else y # ins cmp x ys)"

definition isort_left :: "'a sorter" where
  "isort_left cmp xs = fold (ins cmp) xs []"

definition isort_right :: "'a sorter" where
  "isort_right cmp xs = foldr (ins cmp) xs []"

subsection \<open>The control register\<close>

definition getService :: "client \<Rightarrow> uuid \<Rightarrow> service option" where
  "getService c u =
     (case remote c of None \<Rightarrow> None | Some svcs \<Rightarrow> find (\<lambda>sv. svc_uuid sv = u) svcs)"

definition getCharacteristic :: "service \<Rightarrow> uuid \<Rightarrow> characteristic option" where
  "getCharacteristic sv u = find (\<lambda>ch. char_uuid ch = u) (characteristics sv)"

definition magicWordBytesBE :: bytes where
  "magicWordBytesBE = [0x33, 0x74, 0x12, 0xE4]"

text \<open>
  \<open>writeControlRegister\<close>; the write is
  \<^verbatim>\<open>writeValue(magicWordBytesBE, sizeof(magicWordBytesBE), true)\<close>.
\<close>

definition writeControlRegister :: "session \<Rightarrow> bool \<times> session" where
  "writeControlRegister s =
     (case pClient s of
        None \<Rightarrow> (False, s)
      | Some c \<Rightarrow>
          if \<not> link_up c then (False, s)
          else
            (case getService c CONTROL_UUID of
               None \<Rightarrow> (False, s)
             | Some pControlService \<Rightarrow>
                 (case getCharacteristic pControlService CONTROL_REG_UUID of
                    None \<Rightarrow> (False, s)
                  | Some pControlReg \<Rightarrow>
                      if canWrite pControlReg then
                        (True,
                         s\<lparr>transport := transport s @
                            [CharWrite (char_uuid pControlReg)
                               (take 4 magicWordBytesBE) True]\<rparr>)
                      else (False, s))))"

subsection \<open>Exploring the attribute tree\<close>

text \<open>
  The body of \<^verbatim>\<open>if (cpfData.size() >= 7)\<close> in \<open>exploreService\<close>: format at byte 0, the
  signed exponent at byte 1, the unit code read as a \<^verbatim>\<open>uint16_t\<close> at byte 2. A shorter
  descriptor leaves \<open>formattedValue\<close> empty.
\<close>

definition read_cpf :: "'d fpu \<Rightarrow> bytes \<Rightarrow> bytes \<Rightarrow> fault + string" where
  "read_cpf P rawValue cpfData =
     (if 7 \<le> length cpfData then
        (case byte_at cpfData 0 of
           Inl e \<Rightarrow> Inl e
         | Inr format \<Rightarrow>
             (case byte_at cpfData 1 of
                Inl e \<Rightarrow> Inl e
              | Inr exponent \<Rightarrow>
                  (case load_u16 cpfData 2 of
                     Inl e \<Rightarrow> Inl e
                   | Inr unitUUID \<Rightarrow> convertRawValue P rawValue format exponent unitUUID)))
      else Inr [])"

text \<open>
  One round of the characteristic loop. The descriptor loop stops at the first
  descriptor whose UUID is the presentation format's.
\<close>

definition exploreCharacteristic :: "'d fpu \<Rightarrow> bool \<Rightarrow> characteristic \<Rightarrow> fault + event list" where
  "exploreCharacteristic P char_signed pChar =
     (if canRead pChar then
        (let rawValue = char_data pChar;
             cpf = (case descriptors pChar of
                      None \<Rightarrow> None
                    | Some ds \<Rightarrow> find (\<lambda>d. desc_uuid d = CPF_DESC_UUID) ds)
         in case (case cpf of
                    None \<Rightarrow> Inr []
                  | Some d \<Rightarrow> read_cpf P rawValue (desc_data d)) of
              Inl e \<Rightarrow> Inl e
            | Inr formattedValue \<Rightarrow>
                Inr (CharRead (char_uuid pChar)
                     # (case cpf of None \<Rightarrow> [] | Some d \<Rightarrow> [DescRead (desc_uuid d)])
                     @ [Shown (char_uuid pChar)
                          (if length formattedValue = 0
                           then fallbackConvert char_signed rawValue
                           else formattedValue)]))
      else Inr [])"

fun exploreService :: "'d fpu \<Rightarrow> bool \<Rightarrow> characteristic list \<Rightarrow> fault + event list" where
  "exploreService P char_signed [] = Inr []"
| "exploreService P char_signed (pChar # rest) =
     (case exploreCharacteristic P char_signed pChar of
        Inl e \<Rightarrow> Inl e
      | Inr evs \<Rightarrow>
          (case exploreService P char_signed rest of
             Inl e \<Rightarrow> Inl e
           | Inr evs' \<Rightarrow> Inr (evs @ evs')))"

text \<open>The service loop of \<open>connectToDevice\<close> with its list of six services.\<close>

definition of_interest :: "uuid \<Rightarrow> bool" where
  "of_interest serviceUUID =
     (serviceUUID = DIS_UUID \<or> serviceUUID = TEMP_UUID \<or> serviceUUID = CSCP_UUID
      \<or> serviceUUID = USER_UUID \<or> serviceUUID = BATTERY_UUID \<or> serviceUUID = CONTROL_UUID)"

fun exploreServices :: "'d fpu \<Rightarrow> bool \<Rightarrow> service list \<Rightarrow> fault + event list" where
  "exploreServices P char_signed [] = Inr []"
| "exploreServices P char_signed (sv # rest) =
     (case (if of_interest (svc_uuid sv)
            then exploreService P char_signed (characteristics sv) else Inr []) of
        Inl e \<Rightarrow> Inl e
      | Inr evs \<Rightarrow>
          (case exploreServices P char_signed rest of
             Inl e \<Rightarrow> Inl e
           | Inr evs' \<Rightarrow> Inr (evs @ evs')))"

subsection \<open>Connecting\<close>

text \<open>
  \<open>connectToDevice\<close>. \<open>world\<close> tells how the device at an address answers. A client left
  from an earlier attempt is disconnected and deleted first; the new client is kept in
  \<open>pClient\<close> on every path. The stack runs \<open>MyClientCallback::onConnect\<close> when the link
  comes up. \<open>onDisconnect\<close> runs when the stack reports that a link went down; it is an
  entry point of its own.
\<close>

definition onConnect :: "session \<Rightarrow> session" where
  "onConnect s = s\<lparr>isConnected := True\<rparr>"

definition onDisconnect :: "session \<Rightarrow> session" where
  "onDisconnect s = startScan (s\<lparr>isConnected := False, targetDevice := None\<rparr>)"

definition connectToDevice ::
  "'d fpu \<Rightarrow> bool \<Rightarrow> (string \<Rightarrow> peer) \<Rightarrow> session \<Rightarrow> fault + (bool \<times> session)" where
  "connectToDevice P char_signed world s =
     (case targetDevice s of
        None \<Rightarrow> Inr (False, s)
      | Some tgt \<Rightarrow>
          (let s1 = (case pClient s of
                       None \<Rightarrow> s
                     | Some old \<Rightarrow> s\<lparr>transport := transport s @ [ClientDisconnect, ClientDelete]\<rparr>);
               s2 = s1\<lparr>pClient := Some \<lparr>link_up = False, remote = None\<rparr>,
                       transport := transport s1 @ [ClientCreate]\<rparr>;
               s3 = s2\<lparr>transport := transport s2 @ [ClientConnect (adv_address tgt)]\<rparr>;
               pr = world (adv_address tgt)
           in if \<not> accepts pr then Inr (False, s3)
              else
                (let s4 = onConnect (s3\<lparr>pClient := Some \<lparr>link_up = True, remote = gatt pr\<rparr>\<rparr>)
                 in case gatt pr of
                      None \<Rightarrow> Inr (False, s4)
                    | Some services \<Rightarrow>
                        (case exploreServices P char_signed services of
                           Inl e \<Rightarrow> Inl e
                         | Inr evs \<Rightarrow>
                             (case writeControlRegister (s4\<lparr>transport := transport s4 @ evs\<rparr>) of
                                (writeResult, s5) \<Rightarrow> Inr (True, s5))))))"

subsection \<open>The operator's selection\<close>

text \<open>
  \<^verbatim>\<open>String::trim\<close> and \<^verbatim>\<open>String::toInt\<close> of the Arduino core. \<open>toInt\<close> is the C library's
  \<^verbatim>\<open>atol\<close>: white space is skipped, a sign is read, then decimal digits as far as they
  go; with no digit the result is 0, and a value outside a 32-bit \<^verbatim>\<open>long\<close> is clamped.
\<close>

definition isspace :: "char \<Rightarrow> bool" where
  "isspace c = (c = CHR '' '' \<or> (9 \<le> (of_char c :: nat) \<and> (of_char c :: nat) \<le> 13))"

definition isdigit :: "char \<Rightarrow> bool" where
  "isdigit c = (48 \<le> (of_char c :: nat) \<and> (of_char c :: nat) \<le> 57)"

definition trim :: "string \<Rightarrow> string" where
  "trim str = rev (dropWhile isspace (rev (dropWhile isspace str)))"

fun digits_value :: "string \<Rightarrow> nat \<Rightarrow> nat" where
  "digits_value [] acc = acc"
| "digits_value (c # cs) acc =
     (if isdigit c then digits_value cs (10 * acc + (of_char c - 48)) else acc)"

definition clamp_long :: "int \<Rightarrow> int" where
  "clamp_long v = max (- 2147483648) (min 2147483647 v)"

definition atol :: "string \<Rightarrow> int" where
  "atol str =
     (case dropWhile isspace str of
        [] \<Rightarrow> 0
      | c # cs \<Rightarrow>
          if c = CHR ''-'' then clamp_long (- int (digits_value cs 0))
          else if c = CHR ''+'' then clamp_long (int (digits_value cs 0))
          else clamp_long (int (digits_value (c # cs) 0)))"

definition toInt :: "string \<Rightarrow> 32 word" where
  "toInt str = word_of_int (atol str)"

text \<open>
  \<open>processUserSelection\<close> in its three parts. \<open>bindTarget\<close> is the block that copies the
  selected device into \<open>targetDevice\<close>; \<open>connectOrRescan\<close> is the connection attempt with
  its failure branch; \<open>handleSelection\<close> is the range test on the parsed number. The
  test \<^verbatim>\<open>selection <= sortedDevices.size()\<close> compares an \<^verbatim>\<open>int\<close> with a \<^verbatim>\<open>size_t\<close>, that
  is, as unsigned numbers. \<open>serial\<close> is the line waiting on the console, if any.
\<close>

definition bindTarget :: "session \<Rightarrow> 32 word \<Rightarrow> fault + session" where
  "bindTarget s selection =
     (let selectedAddress = fst (sortedDevices s ! unat (selection - 1))
      in case map_index (foundDevices s) selectedAddress of
           (reg', deviceInfo) \<Rightarrow>
             (case fst deviceInfo of
                None \<Rightarrow> Inl NullDeref
              | Some d \<Rightarrow>
                  Inr (s\<lparr>foundDevices := reg', targetDevice := Some d, deviceFound := True,
                         waitingForUserInput := False\<rparr>)))"

definition connectOrRescan ::
  "'d fpu \<Rightarrow> bool \<Rightarrow> (string \<Rightarrow> peer) \<Rightarrow> session \<Rightarrow> fault + session" where
  "connectOrRescan P char_signed world s =
     (case connectToDevice P char_signed world s of
        Inl e \<Rightarrow> Inl e
      | Inr (connected, s') \<Rightarrow>
          if \<not> connected then Inr (startScan (s'\<lparr>targetDevice := None\<rparr>)) else Inr s')"

definition handleSelection ::
  "'d fpu \<Rightarrow> bool \<Rightarrow> (string \<Rightarrow> peer) \<Rightarrow> 32 word \<Rightarrow> session \<Rightarrow> fault + session" where
  "handleSelection P char_signed world selection s =
     (if 0 < sint selection \<and> unat selection \<le> length (sortedDevices s) then
        (case bindTarget s selection of
           Inl e \<Rightarrow> Inl e
         | Inr s' \<Rightarrow> connectOrRescan P char_signed world s')
      else Inr s)"

definition processUserSelection ::
  "'d fpu \<Rightarrow> bool \<Rightarrow> (string \<Rightarrow> peer) \<Rightarrow> string option \<Rightarrow> session \<Rightarrow> fault + session" where
  "processUserSelection P char_signed world serial s =
     (case serial of
        None \<Rightarrow> Inr s
      | Some line \<Rightarrow> handleSelection P char_signed world (toInt (trim line)) s)"

text \<open>One pass of \<open>loop\<close>.\<close>

definition loop ::
  "'d fpu \<Rightarrow> bool \<Rightarrow> (string \<Rightarrow> peer) \<Rightarrow> string option \<Rightarrow> session \<Rightarrow> fault + session" where
  "loop P char_signed world serial s =
     (case (if waitingForUserInput s
            then processUserSelection P char_signed world serial s else Inr s) of
        Inl e \<Rightarrow> Inl e
      | Inr s' \<Rightarrow>
          (case pClient s' of
             None \<Rightarrow> Inr s'
           | Some c \<Rightarrow>
               if isConnected s' \<and> \<not> link_up c then
                 Inr (startScan
                        (s'\<lparr>isConnected := False, pClient := None,
                            transport := transport s' @ [ClientDisconnect, ClientDelete]\<rparr>))
               else Inr s'))"

section \<open>The contracts in their own words\<close>

text \<open>
  The notions the specification uses, stated apart from the code above and compared with
  it by the theorems below.
\<close>

text \<open>An advertisement is admitted when it has a name that starts with the prefix.\<close>

definition admitted :: "advertised \<Rightarrow> bool" where
  "admitted a =
     (case adv_name a of
        None \<Rightarrow> False
      | Some n \<Rightarrow> take (length TARGET_DEVICE_PREFIX) n = TARGET_DEVICE_PREFIX)"

text \<open>A scan round: the advertisements reach \<open>onResult\<close> one after the other.\<close>

definition ingest :: "advertised list \<Rightarrow> session \<Rightarrow> session" where
  "ingest ads s = fold (\<lambda>a s'. onResult s' a) ads s"

definition last_heard :: "advertised list \<Rightarrow> string \<Rightarrow> advertised option" where
  "last_heard ads addr = find (\<lambda>a. admitted a \<and> adv_address a = addr) (rev ads)"

definition entries_for :: "registry \<Rightarrow> string \<Rightarrow> (string \<times> advertised option \<times> int) list" where
  "entries_for reg addr = filter (\<lambda>item. fst item = addr) reg"

text \<open>
  Every entry of the registry points to a device, and the device's address is the
  entry's key; every address of the displayed list is a key of the registry.
\<close>

definition pointers_live :: "registry \<Rightarrow> bool" where
  "pointers_live reg = list_all (\<lambda>item. map_option adv_address (fst (snd item)) = Some (fst item)) reg"

definition snapshot_known :: "session \<Rightarrow> bool" where
  "snapshot_known s = list_all (\<lambda>row. map_of (foundDevices s) (fst row) \<noteq> None) (sortedDevices s)"

text \<open>The (address, signal strength) pairs of the registry in its iteration order.\<close>

definition pairs_of :: "registry \<Rightarrow> (string \<times> int) list" where
  "pairs_of reg = map (\<lambda>item. (fst item, snd (snd item))) reg"

text \<open>
  Entries of equal signal strength stand in the snapshot in the order the registry
  iterates them.
\<close>

definition ties_in_registry_order :: "registry \<Rightarrow> (string \<times> int) list \<Rightarrow> bool" where
  "ties_in_registry_order reg snap =
     (\<forall>r. filter (\<lambda>p. snd p = r) snap = filter (\<lambda>p. snd p = r) (pairs_of reg))"

text \<open>The four reasons for which the unlock write is not made.\<close>

definition control_service :: "session \<Rightarrow> service option" where
  "control_service s =
     (case pClient s of None \<Rightarrow> None | Some c \<Rightarrow> getService c CONTROL_UUID)"

definition control_register :: "session \<Rightarrow> characteristic option" where
  "control_register s =
     (case control_service s of
        None \<Rightarrow> None
      | Some sv \<Rightarrow> getCharacteristic sv CONTROL_REG_UUID)"

definition not_connected :: "session \<Rightarrow> bool" where
  "not_connected s = (case pClient s of None \<Rightarrow> True | Some c \<Rightarrow> \<not> link_up c)"

definition unlock_blocked :: "session \<Rightarrow> bool" where
  "unlock_blocked s =
     (not_connected s \<or> control_service s = None \<or> control_register s = None
      \<or> map_option canWrite (control_register s) = Some False)"

text \<open>
  A line is a decimal number when it is a non-empty run of digits. A line starts with a
  number when, after leading white space and one optional sign, a digit comes next.
\<close>

definition is_decimal_number :: "string \<Rightarrow> bool" where
  "is_decimal_number str = (str \<noteq> [] \<and> list_all isdigit str)"

definition starts_with_number :: "string \<Rightarrow> bool" where
  "starts_with_number str =
     (case dropWhile isspace str of
        [] \<Rightarrow> False
      | c # cs \<Rightarrow>
          if c = CHR ''-'' \<or> c = CHR ''+'' then (case cs of [] \<Rightarrow> False | d # ds \<Rightarrow> isdigit d)
          else isdigit c)"

section \<open>A test bench\<close>

text \<open>
  Concrete devices and sessions on which the theorems are exercised: three bikes and a
  stranger on the air, peers that refuse the connection, accept it without services, or
  expose the control register, and a bench of seventeen bikes heard at one signal
  strength.
\<close>

definition bike :: "string \<Rightarrow> int \<Rightarrow> advertised" where
  "bike addr rssi = \<lparr> adv_name = Some ''Skp-0001'', adv_address = addr, adv_rssi = rssi \<rparr>"

definition stranger :: advertised where
  "stranger = \<lparr> adv_name = Some ''Speaker'', adv_address = ''10:00'', adv_rssi = - 30 \<rparr>"

definition nameless :: advertised where
  "nameless = \<lparr> adv_name = None, adv_address = ''10:01'', adv_rssi = - 35 \<rparr>"

definition on_air :: "advertised list" where
  "on_air = [bike ''24:0b'' (- 70), stranger, bike ''24:0a'' (- 40), nameless,
             bike ''24:0c'' (- 55), bike ''24:0b'' (- 62)]"

definition heard :: session where
  "heard = ingest on_air (startScan initial)"

definition awaiting :: session where
  "awaiting =
     heard\<lparr>sortedDevices := [(''24:0a'', - 40), (''24:0c'', - 55), (''24:0b'', - 62)],
           waitingForUserInput := True, scanCompleted := True\<rparr>"

definition picked :: session where
  "picked =
     awaiting\<lparr>targetDevice := Some (bike ''24:0a'' (- 40)), deviceFound := True,
              waitingForUserInput := False\<rparr>"

definition refusing :: "string \<Rightarrow> peer" where
  "refusing addr = \<lparr> accepts = False, gatt = None \<rparr>"

definition mute :: "string \<Rightarrow> peer" where
  "mute addr = \<lparr> accepts = True, gatt = None \<rparr>"

definition control_reg :: "bool \<Rightarrow> characteristic" where
  "control_reg writable =
     \<lparr> char_uuid = CONTROL_REG_UUID, canRead = False, canWrite = writable,
       char_data = [], descriptors = None \<rparr>"

definition battery_level :: characteristic where
  "battery_level =
     \<lparr> char_uuid = Uuid16 0x2A19, canRead = True, canWrite = False, char_data = [0x57],
       descriptors = Some [\<lparr> desc_uuid = CPF_DESC_UUID,
                            desc_data = [0x01, 0x00, 0xAD, 0x27, 0x01, 0x00, 0x00] \<rparr>] \<rparr>"

definition bike_gatt :: "bool \<Rightarrow> service list" where
  "bike_gatt writable =
     [\<lparr> svc_uuid = BATTERY_UUID, characteristics = [battery_level] \<rparr>,
      \<lparr> svc_uuid = CONTROL_UUID, characteristics = [control_reg writable] \<rparr>]"

definition friendly :: "string \<Rightarrow> peer" where
  "friendly addr = \<lparr> accepts = True, gatt = Some (bike_gatt True) \<rparr>"

definition linked :: "service list option \<Rightarrow> session" where
  "linked svcs = initial\<lparr>pClient := Some \<lparr> link_up = True, remote = svcs \<rparr>, isConnected := True\<rparr>"

definition hex_digit :: "nat \<Rightarrow> char" where
  "hex_digit d = (if d < 10 then char_of (48 + d) else char_of (87 + d))"

definition bench_bike :: "nat \<Rightarrow> advertised" where
  "bench_bike i = bike (''24:0a:c4:00:00:'' @ [hex_digit (i div 16), hex_digit (i mod 16)]) (- 60)"

definition crowded :: session where
  "crowded = ingest (map bench_bike [0..<17]) (startScan initial)"

section \<open>Loads from a byte buffer\<close>

lemma uint_word_of_nat_nat:
  fixes v :: int
  assumes "0 \<le> v" "v < 2 ^ LENGTH('a::len)"
  shows "uint (word_of_nat (nat v) :: 'a word) = v"
proof -
  have "nat v < 2 ^ LENGTH('a)"
    using assms by (simp add: nat_less_iff)
  then have "unat (word_of_nat (nat v) :: 'a word) = nat v"
    by (simp add: unat_of_nat)
  then have "uint (word_of_nat (nat v) :: 'a word) = int (nat v)"
    by (simp only: uint_nat)
  with assms show ?thesis by simp
qed

lemma sint_of_uint:
  fixes w :: "'a::len word"
  shows "sint w = (if uint w < 2 ^ (LENGTH('a) - 1) then uint w else uint w - 2 ^ LENGTH('a))"
proof -
  define n where "n = LENGTH('a) - 1"
  have len: "LENGTH('a) = Suc n" by (simp add: n_def)
  have b: "0 \<le> uint w" "uint w < 2 * 2 ^ n"
    using uint_bounded [of w] by (simp_all add: len)
  have "sint w = signed_take_bit n (uint w)"
    by (simp add: sint_uint n_def)
  also have "\<dots> = (uint w + 2 ^ n) mod (2 * 2 ^ n) - 2 ^ n"
    by (simp add: signed_take_bit_eq_take_bit_shift take_bit_eq_mod)
  also have "\<dots> = (if uint w < 2 ^ n then uint w else uint w - 2 * 2 ^ n)"
  proof (cases "uint w < 2 ^ n")
    case True
    then have "(uint w + 2 ^ n) mod (2 * 2 ^ n) = uint w + 2 ^ n"
      using b by (simp add: mod_pos_pos_trivial)
    then show ?thesis using True by simp
  next
    case False
    then have "(uint w + 2 ^ n) mod (2 * 2 ^ n) = uint w + 2 ^ n - 2 * 2 ^ n"
      using b by (simp add: mod_pos_geq mod_pos_pos_trivial)
    then show ?thesis using False by simp
  qed
  finally show ?thesis by (simp add: len)
qed

lemma le_unsigned_bounds: "0 \<le> le_unsigned bs \<and> le_unsigned bs < 256 ^ length bs"
proof (induction bs)
  case Nil
  show ?case by simp
next
  case (Cons b bs)
  have "uint b < 256" using uint_bounded [of b] by simp
  moreover have "0 \<le> uint b" by simp
  ultimately show ?case using Cons by simp
qed

lemma load_bytes_ok:
  "off + n \<le> length raw \<Longrightarrow>
   load_bytes raw off n = Inr (nat (le_unsigned (take n (drop off raw))))"
proof (induction n arbitrary: off)
  case 0
  show ?case by simp
next
  case (Suc n)
  from Suc.prems have lt: "off < length raw" by simp
  from Suc.prems have "Suc off + n \<le> length raw" by simp
  from Suc.IH [OF this]
  have ih: "load_bytes raw (Suc off) n = Inr (nat (le_unsigned (take n (drop (Suc off) raw))))" .
  have dr: "drop off raw = raw ! off # drop (Suc off) raw"
    using lt by (simp add: Cons_nth_drop_Suc)
  have nn: "0 \<le> le_unsigned (take n (drop (Suc off) raw))"
    using le_unsigned_bounds by blast
  show ?case
    using lt ih nn by (simp add: byte_at_def dr nat_add_distrib nat_mult_distrib)
qed

lemma load_u16_ok:
  assumes "2 \<le> length raw"
  shows "\<exists>w. load_u16 raw 0 = Inr w \<and> uint w = le_unsigned (take 2 raw)
            \<and> sint w = le_signed (take 2 raw)"
proof -
  let ?v = "le_unsigned (take 2 raw)"
  let ?w = "word_of_nat (nat ?v) :: 16 word"
  have len: "length (take 2 raw) = 2" using assms by simp
  have b: "0 \<le> ?v" "?v < 65536"
    using le_unsigned_bounds [of "take 2 raw"] by (simp_all only: len, simp_all)
  have ld: "load_u16 raw 0 = Inr ?w"
    using assms load_bytes_ok [of 0 2 raw] by (simp add: load_u16_def)
  have u: "uint ?w = ?v"
    using b by (intro uint_word_of_nat_nat) simp_all
  have s: "sint ?w = le_signed (take 2 raw)"
    by (simp only: sint_of_uint u le_signed_def len) simp
  from ld u s show ?thesis by blast
qed

lemma load_u32_ok:
  assumes "4 \<le> length raw"
  shows "\<exists>w. load_u32 raw 0 = Inr w \<and> uint w = le_unsigned (take 4 raw)
            \<and> sint w = le_signed (take 4 raw)"
proof -
  let ?v = "le_unsigned (take 4 raw)"
  let ?w = "word_of_nat (nat ?v) :: 32 word"
  have len: "length (take 4 raw) = 4" using assms by simp
  have b: "0 \<le> ?v" "?v < 4294967296"
    using le_unsigned_bounds [of "take 4 raw"] by (simp_all only: len, simp_all)
  have ld: "load_u32 raw 0 = Inr ?w"
    using assms load_bytes_ok [of 0 4 raw] by (simp add: load_u32_def)
  have u: "uint ?w = ?v"
    using b by (intro uint_word_of_nat_nat) simp_all
  have s: "sint ?w = le_signed (take 4 raw)"
    by (simp only: sint_of_uint u le_signed_def len) simp
  from ld u s show ?thesis by blast
qed

lemma load_u16_eq:
  "2 \<le> length raw \<Longrightarrow> load_u16 raw 0 = Inr (word_of_nat (nat (le_unsigned (take 2 raw))))"
  using load_bytes_ok [of 0 2 raw] by (simp add: load_u16_def)

lemma load_u32_eq:
  "4 \<le> length raw \<Longrightarrow> load_u32 raw 0 = Inr (word_of_nat (nat (le_unsigned (take 4 raw))))"
  using load_bytes_ok [of 0 4 raw] by (simp add: load_u32_def)

lemma convertRawValue_no_fault:
  "\<exists>s. convertRawValue P rawValue format exponent unitUUID = Inr s"
  by (simp add: convertRawValue_def byte_at_def load_u16_eq load_u32_eq not_less)

text \<open>
  Claim C1. When the format code is 0x04, 0x08 or 0x0E and the input has fewer than four
  bytes, or the code is 0x06 or 0x0A and the input has fewer than two, or the code is not
  one of 0x01, 0x04, 0x06, 0x08, 0x0A, 0x0E, \<open>convertRawValue\<close> returns the empty text; and
  on no input at all does it read a byte at or beyond the input's length (it never ends
  in a fault).
\<close>

theorem convertRawValue_short_or_unsupported:
  "(((format = 0x04 \<or> format = 0x08 \<or> format = 0x0E) \<and> length rawValue < 4)
      \<or> ((format = 0x06 \<or> format = 0x0A) \<and> length rawValue < 2)
      \<or> format \<notin> {0x01, 0x04, 0x06, 0x08, 0x0A, 0x0E}
    \<longrightarrow> convertRawValue P rawValue format exponent unitUUID = Inr '''')
   \<and> (\<forall>e. convertRawValue P rawValue format exponent unitUUID \<noteq> Inl e)"
proof
  show "((format = 0x04 \<or> format = 0x08 \<or> format = 0x0E) \<and> length rawValue < 4)
      \<or> ((format = 0x06 \<or> format = 0x0A) \<and> length rawValue < 2)
      \<or> format \<notin> {0x01, 0x04, 0x06, 0x08, 0x0A, 0x0E}
    \<longrightarrow> convertRawValue P rawValue format exponent unitUUID = Inr ''''"
    by (auto simp: convertRawValue_def)
next
  show "\<forall>e. convertRawValue P rawValue format exponent unitUUID \<noteq> Inl e"
    using convertRawValue_no_fault [of P rawValue format exponent unitUUID] by auto
qed

text \<open>
  The theorem of C1 at six inputs, one for each format code it names and one unknown
  code, on every platform.
\<close>

theorem convertRawValue_short_or_unsupported_witness:
  "\<forall>P. convertRawValue P [0x01, 0x02, 0x03] 0x04 0 0x2700 = Inr ''''
     \<and> convertRawValue P [0x01, 0x02, 0x03] 0x08 0 0x2700 = Inr ''''
     \<and> convertRawValue P [0x01, 0x02, 0x03] 0x0E 0 0x2700 = Inr ''''
     \<and> convertRawValue P [0x01] 0x06 0 0x2700 = Inr ''''
     \<and> convertRawValue P [] 0x0A 0 0x2700 = Inr ''''
     \<and> convertRawValue P [0x01, 0x02, 0x03, 0x04] 0x19 0 0x2700 = Inr ''''"
proof
  fix P :: "'d fpu"
  show "convertRawValue P [0x01, 0x02, 0x03] 0x04 0 0x2700 = Inr ''''
     \<and> convertRawValue P [0x01, 0x02, 0x03] 0x08 0 0x2700 = Inr ''''
     \<and> convertRawValue P [0x01, 0x02, 0x03] 0x0E 0 0x2700 = Inr ''''
     \<and> convertRawValue P [0x01] 0x06 0 0x2700 = Inr ''''
     \<and> convertRawValue P [] 0x0A 0 0x2700 = Inr ''''
     \<and> convertRawValue P [0x01, 0x02, 0x03, 0x04] 0x19 0 0x2700 = Inr ''''"
    using convertRawValue_short_or_unsupported [of "0x04" "[0x01, 0x02, 0x03]" P 0 "0x2700"]
      convertRawValue_short_or_unsupported [of "0x08" "[0x01, 0x02, 0x03]" P 0 "0x2700"]
      convertRawValue_short_or_unsupported [of "0x0E" "[0x01, 0x02, 0x03]" P 0 "0x2700"]
      convertRawValue_short_or_unsupported [of "0x06" "[0x01]" P 0 "0x2700"]
      convertRawValue_short_or_unsupported [of "0x0A" "[]" P 0 "0x2700"]
      convertRawValue_short_or_unsupported [of "0x19" "[0x01, 0x02, 0x03, 0x04]" P 0 "0x2700"]
    by simp
qed

text \<open>
  Claim C5. With format code 0x01, whatever the exponent and the unit code, the result is
  "false" on the empty input, "true" when the first byte is not zero and "false" when it
  is zero; the input 0x01 with exponent 0 and unit 0x2700 gives "true".
\<close>

theorem convertRawValue_boolean:
  "convertRawValue P [] 0x01 exponent unitUUID = Inr ''false''
   \<and> (b \<noteq> 0 \<longrightarrow> convertRawValue P (b # bs) 0x01 exponent unitUUID = Inr ''true'')
   \<and> convertRawValue P (0 # bs) 0x01 exponent unitUUID = Inr ''false''
   \<and> convertRawValue P [0x01] 0x01 0 0x2700 = Inr ''true''"
  by (simp add: convertRawValue_def byte_at_def)

text \<open>The theorem of C5 at a two-byte input whose first byte is 0x80, on every platform.\<close>

theorem convertRawValue_boolean_witness:
  "\<forall>P. convertRawValue P [0x80, 0x00] 0x01 0x02 0x27B1 = Inr ''true''"
proof
  fix P :: "'d fpu"
  show "convertRawValue P [0x80, 0x00] 0x01 0x02 0x27B1 = Inr ''true''"
    using convertRawValue_boolean [of P "0x02" "0x27B1" "0x80" "[0x00]"] by simp
qed

text \<open>
  The integer formats, as far as the source decides them. On an input of at least two
  (four) bytes, the codes 0x06 and 0x0A (0x04 and 0x08) read the first two (four) bytes
  as a little-endian number, unsigned for 0x06 and 0x04 and in two's complement for 0x0A
  and 0x08; the result is what the platform's \<^verbatim>\<open>String(double, 2)\<close> prints for the product
  of that number and \<^verbatim>\<open>pow(10, exponent)\<close>, followed by the unit's symbol. Which digits
  that is rests with the platform's double arithmetic and is not settled here.
\<close>

lemma convertRawValue_integer_layout:
  "(2 \<le> length raw \<longrightarrow>
      convertRawValue P raw 0x06 exponent unitUUID =
        Inr (String2 P (fmul P (of_int32 P (le_unsigned (take 2 raw))) (pow10 P (sint exponent)))
             @ unit_of unitUUID))
   \<and> (4 \<le> length raw \<longrightarrow>
      convertRawValue P raw 0x04 exponent unitUUID =
        Inr (String2 P (fmul P (of_int32 P (le_unsigned (take 4 raw))) (pow10 P (sint exponent)))
             @ unit_of unitUUID))
   \<and> (2 \<le> length raw \<longrightarrow>
      convertRawValue P raw 0x0A exponent unitUUID =
        Inr (String2 P (fmul P (of_int32 P (le_signed (take 2 raw))) (pow10 P (sint exponent)))
             @ unit_of unitUUID))
   \<and> (4 \<le> length raw \<longrightarrow>
      convertRawValue P raw 0x08 exponent unitUUID =
        Inr (String2 P (fmul P (of_int32 P (le_signed (take 4 raw))) (pow10 P (sint exponent)))
             @ unit_of unitUUID))"
proof -
  have u16: "convertRawValue P raw 0x06 exponent unitUUID =
        Inr (String2 P (fmul P (of_int32 P (le_unsigned (take 2 raw))) (pow10 P (sint exponent)))
             @ unit_of unitUUID)" if "2 \<le> length raw"
    using load_u16_ok [OF that] that by (auto simp: convertRawValue_def scaled_def)
  have i16: "convertRawValue P raw 0x0A exponent unitUUID =
        Inr (String2 P (fmul P (of_int32 P (le_signed (take 2 raw))) (pow10 P (sint exponent)))
             @ unit_of unitUUID)" if "2 \<le> length raw"
    using load_u16_ok [OF that] that by (auto simp: convertRawValue_def scaled_def)
  have u32: "convertRawValue P raw 0x04 exponent unitUUID =
        Inr (String2 P (fmul P (of_int32 P (le_unsigned (take 4 raw))) (pow10 P (sint exponent)))
             @ unit_of unitUUID)" if "4 \<le> length raw"
    using load_u32_ok [OF that] that by (auto simp: convertRawValue_def scaled_def)
  have i32: "convertRawValue P raw 0x08 exponent unitUUID =
        Inr (String2 P (fmul P (of_int32 P (le_signed (take 4 raw))) (pow10 P (sint exponent)))
             @ unit_of unitUUID)" if "4 \<le> length raw"
    using load_u32_ok [OF that] that by (auto simp: convertRawValue_def scaled_def)
  from u16 i16 u32 i32 show ?thesis by blast
qed

text \<open>
  The bytes 0x64 0x00 with code 0x06, exponent -1 and unit 0x27B1: the number read is
  100, the exponent is -1, and the text is the platform's print of their product followed
  by the degree sign and C.
\<close>

lemma convertRawValue_example_layout:
  "convertRawValue P [0x64, 0x00] 0x06 (- 1) 0x27B1 =
     Inr (String2 P (fmul P (of_int32 P 100) (pow10 P (- 1))) @ degC)"
  using convertRawValue_integer_layout [of "[0x64, 0x00]" P "- 1" "0x27B1"]
  by (simp add: unit_of_def unitMap_def)

lemma printable_uint: "printable c = (32 \<le> uint c \<and> uint c \<le> 126)"
proof -
  have "uint c = int (unat c)" by (rule uint_nat)
  then show ?thesis unfolding printable_def by linarith
qed

lemma printable_char_val:
  "(char_val sg c < 32 \<or> char_val sg c > 126) = (\<not> printable c)"
proof -
  have b: "0 \<le> uint c" "uint c < 256" using uint_bounded [of c] by simp_all
  have s: "sint c = (if uint c < 128 then uint c else uint c - 256)"
    using sint_of_uint [of c] by simp
  show ?thesis
  proof (cases sg)
    case True
    then have "char_val sg c = (if uint c < 128 then uint c else uint c - 256)"
      by (simp only: char_val_def s if_True)
    then show ?thesis using b unfolding printable_uint by (cases "uint c < 128") auto
  next
    case False
    then have "char_val sg c = uint c" by (simp add: char_val_def)
    then show ?thesis unfolding printable_uint by auto
  qed
qed

lemma isAscii_iff: "isAscii sg raw = (\<forall>b\<in>set raw. printable b)"
  by (induction raw) (simp_all add: printable_char_val)

lemma printable_nonzero: "printable b \<Longrightarrow> b \<noteq> 0"
  by (auto simp: printable_def)

lemma String_cstr_printable:
  "\<forall>b\<in>set raw. printable b \<Longrightarrow> String_cstr raw = as_text raw"
proof -
  assume "\<forall>b\<in>set raw. printable b"
  then have "\<forall>b\<in>set raw. b \<noteq> 0" using printable_nonzero by blast
  then have "takeWhile (\<lambda>b. b \<noteq> 0) raw = raw" by (simp add: takeWhile_eq_all_conv)
  then show ?thesis by (simp only: String_cstr_def as_text_def)
qed

lemma fold_append_concat:
  "fold (\<lambda>c out. out @ f c) raw acc = acc @ concat (map f raw)"
  by (induction raw arbitrary: acc) simp_all

text \<open>
  Claim C6. \<open>fallbackConvert\<close> returns the empty text on the empty input; on a non-empty
  input whose bytes all lie in 32..126 it returns the bytes as text; on an input with a
  byte outside 32..126 it returns every byte in decimal, each followed by a space, so
  that the bytes 0, 255, 65 give "0 255 65 ". This holds for signed and for unsigned
  \<^verbatim>\<open>char\<close>.
\<close>

theorem fallbackConvert_cases:
  "fallbackConvert sg [] = ''''
   \<and> (raw \<noteq> [] \<and> (\<forall>b\<in>set raw. printable b) \<longrightarrow> fallbackConvert sg raw = as_text raw)
   \<and> ((\<exists>b\<in>set raw. \<not> printable b) \<longrightarrow>
        fallbackConvert sg raw = concat (map (\<lambda>b. dec_digits (unat b) @ '' '') raw))
   \<and> fallbackConvert sg [0, 255, 65] = ''0 255 65 ''"
proof -
  have a: "fallbackConvert sg [] = ''''" by (simp add: fallbackConvert_def)
  have b: "fallbackConvert sg raw = as_text raw" if "raw \<noteq> []" "\<forall>b\<in>set raw. printable b"
    using that by (simp add: fallbackConvert_def isAscii_iff String_cstr_printable)
  have c: "fallbackConvert sg raw = concat (map (\<lambda>b. dec_digits (unat b) @ '' '') raw)"
    if "\<exists>b\<in>set raw. \<not> printable b" for raw
  proof -
    from that have "raw \<noteq> []" by auto
    moreover from that have "\<not> isAscii sg raw" by (simp add: isAscii_iff)
    ultimately show ?thesis
      using fold_append_concat [of "\<lambda>c. String_u8 c @ '' ''" raw "''''"]
      by (simp add: fallbackConvert_def String_u8_def)
  qed
  have "\<not> printable 0" by (simp add: printable_def)
  then have "\<exists>b\<in>set [0, 255, 65]. \<not> printable b" by simp
  from c [OF this] have d: "fallbackConvert sg [0, 255, 65] = ''0 255 65 ''"
    by (simp add: dec_digits.simps digit_char_def char_of_def bit_Suc_0_iff)
  from a b c d show ?thesis by blast
qed

text \<open>The theorem of C6 at the text "Skp" and at a two-byte input with the byte 0x80.\<close>

theorem fallbackConvert_cases_witness:
  "fallbackConvert False [0x53, 0x6B, 0x70] = ''Skp''
   \<and> fallbackConvert True [0x53, 0x80] = ''83 128 ''"
proof -
  have p: "[0x53, 0x6B, 0x70] \<noteq> ([] :: bytes) \<and> (\<forall>b\<in>set [0x53, 0x6B, 0x70 :: byte]. printable b)"
    by (simp add: printable_def)
  have q: "\<exists>b\<in>set [0x53, 0x80 :: byte]. \<not> printable b"
    by (simp add: printable_def)
  have a: "fallbackConvert False [0x53, 0x6B, 0x70] = ''Skp''"
    using fallbackConvert_cases [of False "[0x53, 0x6B, 0x70]"] p
    by (simp add: as_text_def char_of_def bit_Suc_0_iff)
  have b: "fallbackConvert True [0x53, 0x80] = ''83 128 ''"
    using fallbackConvert_cases [of True "[0x53, 0x80]"] q
    by (simp add: dec_digits.simps digit_char_def char_of_def bit_Suc_0_iff)
  from a b show ?thesis by simp
qed

text \<open>
  The decimal text \<open>String_u8\<close> prints is read back by the digit loop of \<open>atol\<close> as the
  number it was printed from.
\<close>

lemma digit_char_digit:
  "d < 10 \<Longrightarrow> isdigit (digit_char d) \<and> of_char (digit_char d) - 48 = d"
  by (simp add: isdigit_def digit_char_def of_char_of)

lemma digits_value_snoc:
  "list_all isdigit xs \<Longrightarrow> isdigit c \<Longrightarrow>
   digits_value (xs @ [c]) acc = 10 * digits_value xs acc + (of_char c - 48)"
  by (induction xs arbitrary: acc) simp_all

lemma dec_digits_read_back: "list_all isdigit (dec_digits n) \<and> digits_value (dec_digits n) 0 = n"
proof (induction n rule: dec_digits.induct)
  case (1 n)
  show ?case
  proof (cases "n < 10")
    case True
    then show ?thesis using digit_char_digit [of n] by (simp add: dec_digits.simps [of n])
  next
    case False
    from "1" [OF False] have ih: "list_all isdigit (dec_digits (n div 10))"
      "digits_value (dec_digits (n div 10)) 0 = n div 10" by simp_all
    have d: "isdigit (digit_char (n mod 10))" "of_char (digit_char (n mod 10)) - 48 = n mod 10"
      using digit_char_digit [of "n mod 10"] by simp_all
    from False have "dec_digits n = dec_digits (n div 10) @ [digit_char (n mod 10)]"
      by (simp add: dec_digits.simps [of n])
    then show ?thesis
      using ih d digits_value_snoc [OF ih(1) d(1), of 0] by simp
  qed
qed

section \<open>The registry\<close>

lemma str_find_prefix: "(str_find name p = Some 0) = (take (length p) name = p)"
  by (cases name) auto

lemma onResult_admitted:
  "admitted a \<Longrightarrow>
   onResult s a = s\<lparr>foundDevices := map_assign (foundDevices s) (adv_address a) (Some a, adv_rssi a)\<rparr>"
  by (auto simp: onResult_def admitted_def str_find_prefix Let_def split: option.splits)

lemma onResult_not_admitted: "\<not> admitted a \<Longrightarrow> onResult s a = s"
  by (auto simp: onResult_def admitted_def str_find_prefix split: option.splits)

lemma map_of_map_assign: "map_of (map_assign m k v) = (map_of m)(k \<mapsto> v)"
  by (induction m k v rule: map_assign.induct) (auto simp: fun_eq_iff)

lemma keys_map_assign: "set (map fst (map_assign m k v)) = insert k (set (map fst m))"
  by (induction m k v rule: map_assign.induct) auto

lemma sorted_map_assign:
  "sorted_wrt (<) (map fst m) \<Longrightarrow> sorted_wrt (<) (map fst (map_assign m k v))"
proof (induction m k v rule: map_assign.induct)
  case (1 k v)
  show ?case by simp
next
  case (2 k' v' m k v)
  show ?case
  proof (cases "k < k'")
    case True
    with "2.prems" show ?thesis by (auto intro: less_trans)
  next
    case False
    show ?thesis
    proof (cases "k = k'")
      case True
      with "2.prems" show ?thesis by simp
    next
      case ne: False
      with False have lt: "k' < k" by simp
      from "2.prems" have tl: "sorted_wrt (<) (map fst m)" by simp
      from "2.IH" [OF False ne tl]
      have ih: "sorted_wrt (<) (map fst (map_assign m k v))" .
      have "\<forall>x\<in>set (map fst (map_assign m k v)). k' < x"
        unfolding keys_map_assign using "2.prems" lt by auto
      with ih False ne show ?thesis by simp
    qed
  qed
qed

lemma strict_sorted_distinct:
  "sorted_wrt (<) (ks :: 'k::linorder list) \<Longrightarrow> distinct ks"
  by (induction ks) auto

lemma entries_for_distinct:
  "distinct (map fst m) \<Longrightarrow>
   entries_for m addr = (case map_of m addr of None \<Rightarrow> [] | Some v \<Rightarrow> [(addr, v)])"
proof (induction m)
  case Nil
  show ?case by (simp add: entries_for_def)
next
  case (Cons e m)
  obtain k v where e: "e = (k, v)" by (cases e)
  from Cons.prems have d: "distinct (map fst m)" and nk: "k \<notin> fst ` set m"
    by (simp_all add: e)
  note ih = Cons.IH [OF d]
  show ?case
  proof (cases "k = addr")
    case True
    with nk have "map_of m addr = None" by (simp add: map_of_eq_None_iff)
    with ih have "entries_for m addr = []" by simp
    with True show ?thesis by (simp add: entries_for_def e)
  next
    case False
    with ih show ?thesis by (simp add: entries_for_def e)
  qed
qed

lemma ingest_snoc: "ingest (ads @ [a]) s = onResult (ingest ads s) a"
  by (simp add: ingest_def)

lemma last_heard_snoc:
  "last_heard (ads @ [a]) addr =
     (if admitted a \<and> adv_address a = addr then Some a else last_heard ads addr)"
  by (simp add: last_heard_def)

lemma ingest_registry:
  "sorted_wrt (<) (map fst (foundDevices (ingest ads (startScan s))))
   \<and> map_of (foundDevices (ingest ads (startScan s))) addr =
       map_option (\<lambda>a. (Some a, adv_rssi a)) (last_heard ads addr)"
proof (induction ads arbitrary: addr rule: rev_induct)
  case Nil
  show ?case by (simp add: ingest_def startScan_def last_heard_def)
next
  case (snoc a ads)
  show ?case
  proof (cases "admitted a")
    case True
    then show ?thesis
      using snoc [of addr]
      by (simp add: ingest_snoc last_heard_snoc onResult_admitted sorted_map_assign
          map_of_map_assign)
  next
    case False
    then show ?thesis
      using snoc [of addr] by (simp add: ingest_snoc last_heard_snoc onResult_not_admitted)
  qed
qed

lemma ingest_entries:
  "entries_for (foundDevices (ingest ads (startScan s))) addr =
     (case last_heard ads addr of None \<Rightarrow> [] | Some a \<Rightarrow> [(addr, Some a, adv_rssi a)])"
proof -
  have "distinct (map fst (foundDevices (ingest ads (startScan s))))"
    using ingest_registry [of ads s] strict_sorted_distinct by blast
  from entries_for_distinct [OF this, of addr] show ?thesis
    using ingest_registry [of ads s addr] by (simp split: option.splits)
qed

text \<open>
  Claim C7. An advertisement that is not admitted (no name, or a name that does not
  start with the prefix) leaves the session as it is. After any sequence of
  advertisements of a scan round the registry holds, for every address, exactly the last
  admitted advertisement of that address with its signal strength, and no entry when
  there was none; so of two admitted advertisements of one address the later one is the
  single entry. \<open>startScan\<close> leaves the registry empty whatever it held.
\<close>

theorem registry_last_write_wins:
  "(\<not> admitted a \<longrightarrow> onResult s a = s)
   \<and> entries_for (foundDevices (ingest ads (startScan s))) addr =
       (case last_heard ads addr of None \<Rightarrow> [] | Some b \<Rightarrow> [(addr, Some b, adv_rssi b)])
   \<and> (admitted a1 \<and> admitted a2 \<and> adv_address a1 = adv_address a2 \<longrightarrow>
        entries_for (foundDevices (ingest (ads @ [a1, a2]) (startScan s))) (adv_address a2) =
          [(adv_address a2, Some a2, adv_rssi a2)])
   \<and> foundDevices (startScan s) = []"
proof -
  have two: "entries_for (foundDevices (ingest (ads @ [a1, a2]) (startScan s))) (adv_address a2) =
          [(adv_address a2, Some a2, adv_rssi a2)]" if "admitted a2"
  proof -
    have "last_heard (ads @ [a1, a2]) (adv_address a2) = Some a2"
      using that last_heard_snoc [of "ads @ [a1]" a2 "adv_address a2"] by simp
    then show ?thesis by (simp add: ingest_entries)
  qed
  have clr: "foundDevices (startScan s) = []" by (simp add: startScan_def)
  have skip: "\<not> admitted a \<longrightarrow> onResult s a = s" by (simp add: onResult_not_admitted)
  from skip ingest_entries [of ads s addr] two clr show ?thesis by blast
qed

text \<open>
  The theorem of C7 on the bench: a stranger and a nameless device change nothing, the
  bike heard twice is held once with its later signal strength, and \<open>startScan\<close> empties
  the registry.
\<close>

theorem registry_last_write_wins_witness:
  "onResult heard stranger = heard
   \<and> onResult heard nameless = heard
   \<and> entries_for (foundDevices heard) ''24:0b'' = [(''24:0b'', Some (bike ''24:0b'' (- 62)), - 62)]
   \<and> entries_for (foundDevices heard) ''10:00'' = []
   \<and> entries_for
        (foundDevices (ingest ([] @ [bike ''24:0b'' (- 70), bike ''24:0b'' (- 62)]) (startScan heard)))
        ''24:0b'' = [(''24:0b'', Some (bike ''24:0b'' (- 62)), - 62)]
   \<and> foundDevices (startScan heard) = []"
proof -
  have ns: "\<not> admitted stranger" "\<not> admitted nameless"
    by (simp_all add: admitted_def stranger_def nameless_def TARGET_DEVICE_PREFIX_def)
  have ad: "admitted (bike ''24:0b'' (- 70))" "admitted (bike ''24:0b'' (- 62))"
    by (simp_all add: admitted_def bike_def TARGET_DEVICE_PREFIX_def)
  have l1: "last_heard on_air ''24:0b'' = Some (bike ''24:0b'' (- 62))"
    by (simp add: last_heard_def on_air_def admitted_def bike_def stranger_def nameless_def
        TARGET_DEVICE_PREFIX_def)
  have l2: "last_heard on_air ''10:00'' = None"
    by (simp add: last_heard_def on_air_def admitted_def bike_def stranger_def nameless_def
        TARGET_DEVICE_PREFIX_def)
  have a: "onResult heard stranger = heard"
    using registry_last_write_wins [of stranger heard "[]" "[]" stranger stranger] ns by simp
  have b: "onResult heard nameless = heard"
    using registry_last_write_wins [of nameless heard "[]" "[]" stranger stranger] ns by simp
  have c: "entries_for (foundDevices heard) ''24:0b'' = [(''24:0b'', Some (bike ''24:0b'' (- 62)), - 62)]"
    using registry_last_write_wins [of stranger initial on_air "''24:0b''" stranger stranger] l1
    by (simp add: heard_def bike_def)
  have d: "entries_for (foundDevices heard) ''10:00'' = []"
    using registry_last_write_wins [of stranger initial on_air "''10:00''" stranger stranger] l2
    by (simp add: heard_def)
  have e: "entries_for
        (foundDevices (ingest ([] @ [bike ''24:0b'' (- 70), bike ''24:0b'' (- 62)]) (startScan heard)))
        ''24:0b'' = [(''24:0b'', Some (bike ''24:0b'' (- 62)), - 62)]"
    using registry_last_write_wins [of stranger heard "[]" "[]" "bike ''24:0b'' (- 70)"
        "bike ''24:0b'' (- 62)"] ad
    by (simp add: bike_def)
  have f: "foundDevices (startScan heard) = []"
    using registry_last_write_wins [of stranger heard "[]" "[]" stranger stranger] by simp
  from a b c d e f show ?thesis by simp
qed

section \<open>The displayed list\<close>

lemma heard_eq:
  "heard = initial\<lparr>foundDevices :=
      [(''24:0a'', Some (bike ''24:0a'' (- 40)), - 40),
       (''24:0b'', Some (bike ''24:0b'' (- 62)), - 62),
       (''24:0c'', Some (bike ''24:0c'' (- 55)), - 55)],
      transport := [ScanClearResults, ScanStart 5]\<rparr>"
  by (simp add: heard_def ingest_def on_air_def onResult_def startScan_def initial_def bike_def
      stranger_def nameless_def TARGET_DEVICE_PREFIX_def)

lemma crowded_pairs:
  "pairs_of (foundDevices crowded) =
     [(''24:0a:c4:00:00:00'', - 60), (''24:0a:c4:00:00:01'', - 60), (''24:0a:c4:00:00:02'', - 60),
      (''24:0a:c4:00:00:03'', - 60), (''24:0a:c4:00:00:04'', - 60), (''24:0a:c4:00:00:05'', - 60),
      (''24:0a:c4:00:00:06'', - 60), (''24:0a:c4:00:00:07'', - 60), (''24:0a:c4:00:00:08'', - 60),
      (''24:0a:c4:00:00:09'', - 60), (''24:0a:c4:00:00:0a'', - 60), (''24:0a:c4:00:00:0b'', - 60),
      (''24:0a:c4:00:00:0c'', - 60), (''24:0a:c4:00:00:0d'', - 60), (''24:0a:c4:00:00:0e'', - 60),
      (''24:0a:c4:00:00:0f'', - 60), (''24:0a:c4:00:00:10'', - 60)]"
  by code_simp

lemma mset_ins: "mset (ins cmp x ys) = add_mset x (mset ys)"
  by (induction ys) simp_all

lemma set_ins: "set (ins cmp x ys) = insert x (set ys)"
  by (induction ys) auto

lemma sorted_ins:
  "sorted_wrt (\<lambda>a b. \<not> by_rssi b a) ys \<Longrightarrow> sorted_wrt (\<lambda>a b. \<not> by_rssi b a) (ins by_rssi x ys)"
proof (induction ys)
  case Nil
  show ?case by simp
next
  case (Cons y ys)
  show ?case
  proof (cases "by_rssi x y")
    case True
    with Cons.prems show ?thesis by (auto simp: by_rssi_def)
  next
    case False
    from Cons.prems have "sorted_wrt (\<lambda>a b. \<not> by_rssi b a) ys" by simp
    from Cons.IH [OF this] Cons.prems False show ?thesis
      by (auto simp: set_ins by_rssi_def)
  qed
qed

lemma mset_fold_ins: "mset (fold (ins cmp) xs acc) = mset xs + mset acc"
  by (induction xs arbitrary: acc) (simp_all add: mset_ins)

lemma sorted_fold_ins:
  "sorted_wrt (\<lambda>a b. \<not> by_rssi b a) acc \<Longrightarrow>
   sorted_wrt (\<lambda>a b. \<not> by_rssi b a) (fold (ins by_rssi) xs acc)"
  by (induction xs arbitrary: acc) (simp_all add: sorted_ins)

lemma isort_left_contract: "sort_contract isort_left by_rssi"
  by (simp add: sort_contract_def isort_left_def mset_fold_ins sorted_fold_ins)

lemma mset_foldr_ins: "mset (foldr (ins cmp) xs []) = mset xs"
  by (induction xs) (simp_all add: mset_ins)

lemma sorted_foldr_ins: "sorted_wrt (\<lambda>a b. \<not> by_rssi b a) (foldr (ins by_rssi) xs [])"
  by (induction xs) (simp_all add: sorted_ins)

lemma isort_right_contract: "sort_contract isort_right by_rssi"
  by (simp add: sort_contract_def isort_right_def mset_foldr_ins sorted_foldr_ins)

lemma pointers_live_lookup:
  "pointers_live reg \<Longrightarrow> map_of reg k = Some v \<Longrightarrow> \<exists>d. fst v = Some d \<and> adv_address d = k"
proof -
  assume live: "pointers_live reg" and "map_of reg k = Some v"
  then have "(k, v) \<in> set reg" by (simp add: map_of_SomeD)
  with live have "map_option adv_address (fst (snd (k, v))) = Some (fst (k, v))"
    unfolding pointers_live_def list_all_iff by blast
  then show ?thesis by auto
qed

lemma map_index_known: "map_of reg k = Some v \<Longrightarrow> map_index reg k = (reg, v)"
  by (simp add: map_index_def)

lemma show_rows_known:
  "pointers_live reg \<Longrightarrow> \<forall>row\<in>set rows. fst row \<in> fst ` set reg \<Longrightarrow> show_rows rows reg = Inr reg"
proof (induction rows)
  case Nil
  show ?case by simp
next
  case (Cons row rows)
  from Cons.prems have "fst row \<in> fst ` set reg" by simp
  then obtain v where v: "map_of reg (fst row) = Some v"
    by (metis map_of_eq_None_iff not_Some_eq)
  from pointers_live_lookup [OF Cons.prems(1) v] obtain d where d: "fst v = Some d" by blast
  from Cons.prems have "\<forall>r\<in>set rows. fst r \<in> fst ` set reg" by simp
  from Cons.IH [OF Cons.prems(1) this] show ?case
    by (simp add: map_index_known [OF v] d)
qed

lemma keys_pairs_of: "fst ` set (pairs_of reg) = fst ` set reg"
  by (force simp: pairs_of_def)

lemma heard_live: "pointers_live (foundDevices heard)"
  by (simp add: heard_eq pointers_live_def bike_def)

text \<open>
  Claim C3, as the code has it. Whatever routine stands for \<^verbatim>\<open>std::sort\<close>, as long as it
  keeps the standard's promise, and on a registry whose entries point to devices:
  \<open>displayFoundDevices\<close> ends without a fault, changes nothing of the session but the
  displayed list and the waiting flag (the registry is as before), and the displayed list
  is a rearrangement of the registry's (address, signal strength) pairs in which the
  signal strength never increases. The order of entries of equal signal strength is left
  to the sorting routine.
\<close>

theorem displayFoundDevices_snapshot:
  assumes "sort_contract std_sort by_rssi" and "pointers_live (foundDevices s)"
  shows "\<exists>snap. displayFoundDevices std_sort s =
                  Inr (s\<lparr>sortedDevices := snap, waitingForUserInput := True\<rparr>)
          \<and> mset snap = mset (pairs_of (foundDevices s))
          \<and> sorted_wrt (\<lambda>a b. snd a \<ge> snd b) snap"
proof -
  let ?pairs = "pairs_of (foundDevices s)"
  let ?snap = "std_sort by_rssi ?pairs"
  from assms(1) have m: "mset ?snap = mset ?pairs"
    and so: "sorted_wrt (\<lambda>a b. \<not> by_rssi b a) ?snap"
    by (simp_all add: sort_contract_def)
  from m have "set ?snap = set ?pairs" by (rule mset_eq_setD)
  then have "\<forall>row\<in>set ?snap. fst row \<in> fst ` set (foundDevices s)"
    using keys_pairs_of [of "foundDevices s"] by blast
  from show_rows_known [OF assms(2) this]
  have rows: "show_rows ?snap (foundDevices s) = Inr (foundDevices s)" .
  have "(\<lambda>a b. \<not> by_rssi b a) = (\<lambda>a b :: string \<times> int. snd a \<ge> snd b)"
    by (auto simp: by_rssi_def fun_eq_iff)
  with so have so': "sorted_wrt (\<lambda>a b. snd a \<ge> snd b) ?snap" by simp
  have "displayFoundDevices std_sort s =
          Inr (s\<lparr>sortedDevices := ?snap, waitingForUserInput := True\<rparr>)"
    using rows by (simp add: displayFoundDevices_def pairs_of_def [symmetric] Let_def)
  with m so' show ?thesis by blast
qed

text \<open>
  The theorem of C3 on the three bikes of the bench, with the insertion sort from the
  left as the sorting routine.
\<close>

theorem displayFoundDevices_snapshot_witness:
  "\<exists>snap. displayFoundDevices isort_left heard =
            Inr (heard\<lparr>sortedDevices := snap, waitingForUserInput := True\<rparr>)
     \<and> mset snap = mset [(''24:0a'', - 40), (''24:0b'', - 62), (''24:0c'', - 55)]
     \<and> sorted_wrt (\<lambda>a b. snd a \<ge> snd b) snap"
  using displayFoundDevices_snapshot [OF isort_left_contract heard_live]
  by (simp add: heard_eq pairs_of_def)

lemma ins_behind: "\<forall>y\<in>set ys. \<not> cmp x y \<Longrightarrow> ins cmp x ys = ys @ [x]"
  by (induction ys) simp_all

lemma isort_right_ties:
  "\<forall>p\<in>set xs. snd p = r \<Longrightarrow> isort_right by_rssi xs = rev xs"
proof (induction xs)
  case Nil
  show ?case by (simp add: isort_right_def)
next
  case (Cons x xs)
  then have ih: "foldr (ins by_rssi) xs [] = rev xs" by (simp add: isort_right_def)
  from Cons.prems have "\<forall>y\<in>set (rev xs). \<not> by_rssi x y" by (simp add: by_rssi_def)
  then have "ins by_rssi x (rev xs) = rev xs @ [x]" by (rule ins_behind)
  with ih show ?case by (simp add: isort_right_def)
qed

lemma ingest_live: "pointers_live (foundDevices (ingest ads (startScan s)))"
proof -
  let ?reg = "foundDevices (ingest ads (startScan s))"
  have "map_option adv_address (fst (snd item)) = Some (fst item)" if "item \<in> set ?reg" for item
  proof -
    obtain k v where item: "item = (k, v)" by (cases item)
    have "distinct (map fst ?reg)"
      using ingest_registry [of ads s] strict_sorted_distinct by blast
    with that have "map_of ?reg k = Some v" by (simp add: item)
    then obtain a where "last_heard ads k = Some a" and v: "v = (Some a, adv_rssi a)"
      using ingest_registry [of ads s k] by auto
    then have "adv_address a = k"
      by (auto simp: last_heard_def dest: find_Some_iff [THEN iffD1])
    with v show ?thesis by (simp add: item)
  qed
  then show ?thesis by (simp add: pointers_live_def list_all_iff)
qed

text \<open>
  Claim C3 as stated fails. The routine \<open>isort_right\<close> keeps the promise of \<^verbatim>\<open>std::sort\<close>;
  with it, the seventeen bikes of the bench, all heard at -60, are displayed in the
  reverse of the registry's order. (Seventeen is one more than the sixteen elements up to
  which the GNU library's \<^verbatim>\<open>std::sort\<close> sorts by insertion alone; on longer ranges its
  partition step exchanges elements that compare equal.)
\<close>

theorem displayFoundDevices_ties_counterexample:
  "sort_contract isort_right by_rssi
   \<and> displayFoundDevices isort_right crowded =
       Inr (crowded\<lparr>sortedDevices := rev (pairs_of (foundDevices crowded)),
                    waitingForUserInput := True\<rparr>)
   \<and> \<not> ties_in_registry_order (foundDevices crowded) (rev (pairs_of (foundDevices crowded)))"
proof -
  let ?pairs = "pairs_of (foundDevices crowded)"
  have live: "pointers_live (foundDevices crowded)"
    unfolding crowded_def by (rule ingest_live)
  have ties: "\<forall>p\<in>set ?pairs. snd p = - 60" by (simp add: crowded_pairs)
  from isort_right_ties [OF ties] have srt: "isort_right by_rssi ?pairs = rev ?pairs" .
  have "\<forall>row\<in>set (rev ?pairs). fst row \<in> fst ` set (foundDevices crowded)"
    using keys_pairs_of [of "foundDevices crowded"] by auto
  from show_rows_known [OF live this]
  have "displayFoundDevices isort_right crowded =
       Inr (crowded\<lparr>sortedDevices := rev ?pairs, waitingForUserInput := True\<rparr>)"
    by (simp add: displayFoundDevices_def pairs_of_def [symmetric] srt Let_def)
  moreover have "\<not> ties_in_registry_order (foundDevices crowded) (rev ?pairs)"
  proof
    assume "ties_in_registry_order (foundDevices crowded) (rev ?pairs)"
    then have "filter (\<lambda>p. snd p = - 60) (rev ?pairs) = filter (\<lambda>p. snd p = - 60) ?pairs"
      unfolding ties_in_registry_order_def by blast
    then show False by (simp add: crowded_pairs)
  qed
  ultimately show ?thesis using isort_right_contract by blast
qed

text \<open>
  With the insertion sort that takes the input from the left, entries of equal signal
  strength do keep the registry's order: what fails for \<^verbatim>\<open>std::sort\<close> is the guarantee,
  not every run.
\<close>

lemma filter_ins:
  "sorted_wrt (\<lambda>a b. \<not> by_rssi b a) ys \<Longrightarrow>
   filter (\<lambda>p. snd p = r) (ins by_rssi x ys) =
     (if snd x = r then filter (\<lambda>p. snd p = r) ys @ [x] else filter (\<lambda>p. snd p = r) ys)"
proof (induction ys)
  case Nil
  show ?case by simp
next
  case (Cons y ys)
  from Cons.prems have tl: "sorted_wrt (\<lambda>a b. \<not> by_rssi b a) ys"
    and le: "\<forall>z\<in>set ys. snd z \<le> snd y" by (auto simp: by_rssi_def)
  show ?case
  proof (cases "by_rssi x y")
    case True
    then have lt: "snd y < snd x" by (simp add: by_rssi_def)
    with le have "\<forall>z\<in>set (y # ys). snd z \<noteq> snd x" by auto
    then have "filter (\<lambda>p. snd p = snd x) (y # ys) = []" by (simp only: filter_empty_conv)
    with True show ?thesis by auto
  next
    case False
    with Cons.IH [OF tl] show ?thesis by simp
  qed
qed

lemma filter_fold_ins:
  "sorted_wrt (\<lambda>a b. \<not> by_rssi b a) acc \<Longrightarrow>
   filter (\<lambda>p. snd p = r) (fold (ins by_rssi) xs acc) =
     filter (\<lambda>p. snd p = r) acc @ filter (\<lambda>p. snd p = r) xs"
proof (induction xs arbitrary: acc)
  case Nil
  show ?case by simp
next
  case (Cons x xs)
  from sorted_ins [OF Cons.prems] have "sorted_wrt (\<lambda>a b. \<not> by_rssi b a) (ins by_rssi x acc)" .
  from Cons.IH [OF this] show ?case by (simp add: filter_ins [OF Cons.prems])
qed

lemma isort_left_stable: "ties_in_registry_order reg (isort_left by_rssi (pairs_of reg))"
  by (simp add: ties_in_registry_order_def isort_left_def filter_fold_ins)

section \<open>The unlock write\<close>

text \<open>
  Claim C9. \<open>writeControlRegister\<close> returns false exactly when the session is not
  connected, or the control service is absent, or the control register is absent in it,
  or the register is not writable; then it changes nothing and no write is made.
  Otherwise it returns true and makes one call on the stack: a write of the four bytes
  33 74 12 E4, in this order, to the control register, with a response requested.
\<close>

theorem writeControlRegister_cases:
  "(fst (writeControlRegister s) = False) = unlock_blocked s
   \<and> (unlock_blocked s \<longrightarrow> writeControlRegister s = (False, s))
   \<and> (\<not> unlock_blocked s \<longrightarrow>
        writeControlRegister s =
          (True, s\<lparr>transport := transport s @
                     [CharWrite CONTROL_REG_UUID [0x33, 0x74, 0x12, 0xE4] True]\<rparr>))"
proof -
  have uu: "char_uuid ch = CONTROL_REG_UUID"
    if "getCharacteristic sv CONTROL_REG_UUID = Some ch" for sv ch
    using that by (auto simp: getCharacteristic_def find_Some_iff)
  have blocked: "writeControlRegister s = (False, s)" if "unlock_blocked s"
    using that
    by (auto simp: writeControlRegister_def unlock_blocked_def not_connected_def
        control_service_def control_register_def split: option.splits)
  have free: "writeControlRegister s =
          (True, s\<lparr>transport := transport s @
                     [CharWrite CONTROL_REG_UUID [0x33, 0x74, 0x12, 0xE4] True]\<rparr>)"
    if "\<not> unlock_blocked s"
    using that uu
    by (auto simp: writeControlRegister_def unlock_blocked_def not_connected_def
        control_service_def control_register_def magicWordBytesBE_def split: option.splits)
  have "(fst (writeControlRegister s) = False) = unlock_blocked s"
    using blocked free by (cases "unlock_blocked s") simp_all
  with blocked free show ?thesis by blast
qed

text \<open>
  The theorem of C9 on six sessions: no client, a client without services, with an empty
  service list, with a control service without the register, with a register that is
  not writable, and with a writable register.
\<close>

theorem writeControlRegister_cases_witness:
  "writeControlRegister initial = (False, initial)
   \<and> writeControlRegister (linked None) = (False, linked None)
   \<and> writeControlRegister (linked (Some [])) = (False, linked (Some []))
   \<and> writeControlRegister (linked (Some [\<lparr>svc_uuid = CONTROL_UUID, characteristics = []\<rparr>])) =
       (False, linked (Some [\<lparr>svc_uuid = CONTROL_UUID, characteristics = []\<rparr>]))
   \<and> writeControlRegister (linked (Some (bike_gatt False))) = (False, linked (Some (bike_gatt False)))
   \<and> writeControlRegister (linked (Some (bike_gatt True))) =
       (True, (linked (Some (bike_gatt True)))
                \<lparr>transport := [CharWrite CONTROL_REG_UUID [0x33, 0x74, 0x12, 0xE4] True]\<rparr>)"
proof -
  have neq: "BATTERY_UUID \<noteq> CONTROL_UUID"
    by (simp add: BATTERY_UUID_def CONTROL_UUID_def)
  have b1: "unlock_blocked initial"
    by (simp add: unlock_blocked_def not_connected_def initial_def)
  have b2: "unlock_blocked (linked None)"
    by (simp add: unlock_blocked_def control_service_def getService_def linked_def)
  have b3: "unlock_blocked (linked (Some []))"
    by (simp add: unlock_blocked_def control_service_def getService_def linked_def)
  have b4: "unlock_blocked (linked (Some [\<lparr>svc_uuid = CONTROL_UUID, characteristics = []\<rparr>]))"
    by (simp add: unlock_blocked_def control_service_def control_register_def getService_def
        getCharacteristic_def linked_def)
  have b5: "unlock_blocked (linked (Some (bike_gatt False)))"
    using neq
    by (simp add: unlock_blocked_def control_service_def control_register_def getService_def
        getCharacteristic_def linked_def bike_gatt_def control_reg_def)
  have f6: "\<not> unlock_blocked (linked (Some (bike_gatt True)))"
    using neq
    by (simp add: unlock_blocked_def not_connected_def control_service_def control_register_def
        getService_def getCharacteristic_def linked_def bike_gatt_def control_reg_def)
  have t: "transport (linked (Some (bike_gatt True))) = []"
    by (simp add: linked_def initial_def)
  show ?thesis
    using writeControlRegister_cases [of initial] b1
      writeControlRegister_cases [of "linked None"] b2
      writeControlRegister_cases [of "linked (Some [])"] b3
      writeControlRegister_cases [of "linked (Some [\<lparr>svc_uuid = CONTROL_UUID, characteristics = []\<rparr>])"] b4
      writeControlRegister_cases [of "linked (Some (bike_gatt False))"] b5
      writeControlRegister_cases [of "linked (Some (bike_gatt True))"] f6 t
    by simp
qed

section \<open>Exploring and connecting\<close>

lemma read_cpf_no_fault: "\<exists>t. read_cpf P rawValue cpfData = Inr t"
proof (cases "7 \<le> length cpfData")
  case False
  then show ?thesis by (simp add: read_cpf_def)
next
  case True
  then have "2 + 2 \<le> length cpfData" by simp
  from load_bytes_ok [OF this]
  obtain w where w: "load_u16 cpfData 2 = Inr w" by (simp add: load_u16_def)
  from True have "cpfData \<noteq> []" "1 < length cpfData" by auto
  then have b: "byte_at cpfData 0 = Inr (cpfData ! 0)" "byte_at cpfData (Suc 0) = Inr (cpfData ! 1)"
    unfolding byte_at_def by simp_all
  from convertRawValue_no_fault [of P rawValue "cpfData ! 0" "cpfData ! 1" w]
  show ?thesis using True by (simp add: read_cpf_def b w)
qed

lemma exploreCharacteristic_no_fault: "\<exists>evs. exploreCharacteristic P sg pChar = Inr evs"
proof (cases "canRead pChar")
  case False
  then show ?thesis by (simp add: exploreCharacteristic_def)
next
  case True
  let ?cpf = "case descriptors pChar of None \<Rightarrow> None
              | Some ds \<Rightarrow> find (\<lambda>d. desc_uuid d = CPF_DESC_UUID) ds"
  have "\<exists>t. (case ?cpf of None \<Rightarrow> Inr [] | Some d \<Rightarrow> read_cpf P (char_data pChar) (desc_data d)) = Inr t"
    using read_cpf_no_fault by (cases ?cpf) auto
  then obtain t where
    "(case ?cpf of None \<Rightarrow> Inr [] | Some d \<Rightarrow> read_cpf P (char_data pChar) (desc_data d)) = Inr t"
    by blast
  then show ?thesis using True by (simp add: exploreCharacteristic_def Let_def)
qed

lemma exploreService_no_fault: "\<exists>evs. exploreService P sg chars = Inr evs"
proof (induction chars)
  case Nil
  show ?case by simp
next
  case (Cons pChar rest)
  from exploreCharacteristic_no_fault obtain e1 where "exploreCharacteristic P sg pChar = Inr e1"
    by blast
  moreover from Cons obtain e2 where "exploreService P sg rest = Inr e2" by blast
  ultimately show ?case by simp
qed

lemma exploreServices_no_fault: "\<exists>evs. exploreServices P sg svcs = Inr evs"
proof (induction svcs)
  case Nil
  show ?case by simp
next
  case (Cons sv rest)
  from exploreService_no_fault obtain e1 where
    "exploreService P sg (characteristics sv) = Inr e1" by blast
  moreover from Cons obtain e2 where "exploreServices P sg rest = Inr e2" by blast
  ultimately show ?case by simp
qed

lemma writeControlRegister_frame:
  "\<exists>ok evs. writeControlRegister s = (ok, s\<lparr>transport := transport s @ evs\<rparr>)"
proof -
  have "s = s\<lparr>transport := transport s @ []\<rparr>" by simp
  then have idle: "\<exists>evs. s = s\<lparr>transport := transport s @ evs\<rparr>" by blast
  show ?thesis
    using idle by (auto simp: writeControlRegister_def split: option.splits)
qed

lemma connectToDevice_refused:
  assumes "targetDevice s = Some tgt" and "\<not> accepts (world (adv_address tgt))"
  shows "connectToDevice P sg world s =
     Inr (False,
          s\<lparr>pClient := Some \<lparr>link_up = False, remote = None\<rparr>,
            transport := transport s
              @ (case pClient s of None \<Rightarrow> [] | Some old \<Rightarrow> [ClientDisconnect, ClientDelete])
              @ [ClientCreate, ClientConnect (adv_address tgt)]\<rparr>)"
  using assms by (cases "pClient s") (simp_all add: connectToDevice_def Let_def)

lemma connectToDevice_no_services:
  assumes "targetDevice s = Some tgt" and "accepts (world (adv_address tgt))"
    and "gatt (world (adv_address tgt)) = None"
  shows "connectToDevice P sg world s =
     Inr (False,
          s\<lparr>pClient := Some \<lparr>link_up = True, remote = None\<rparr>, isConnected := True,
            transport := transport s
              @ (case pClient s of None \<Rightarrow> [] | Some old \<Rightarrow> [ClientDisconnect, ClientDelete])
              @ [ClientCreate, ClientConnect (adv_address tgt)]\<rparr>)"
  using assms by (cases "pClient s") (simp_all add: connectToDevice_def Let_def onConnect_def)

lemma connectToDevice_explored:
  assumes "targetDevice s = Some tgt" and "accepts (world (adv_address tgt))"
    and "gatt (world (adv_address tgt)) = Some svcs"
  shows "\<exists>evs. connectToDevice P sg world s =
     Inr (True,
          s\<lparr>pClient := Some \<lparr>link_up = True, remote = Some svcs\<rparr>, isConnected := True,
            transport := transport s
              @ (case pClient s of None \<Rightarrow> [] | Some old \<Rightarrow> [ClientDisconnect, ClientDelete])
              @ [ClientCreate, ClientConnect (adv_address tgt)] @ evs\<rparr>)"
proof -
  from exploreServices_no_fault obtain e1 where e1: "exploreServices P sg svcs = Inr e1" by blast
  let ?pre = "transport s
              @ (case pClient s of None \<Rightarrow> [] | Some old \<Rightarrow> [ClientDisconnect, ClientDelete])
              @ [ClientCreate, ClientConnect (adv_address tgt)]"
  let ?s4 = "s\<lparr>pClient := Some \<lparr>link_up = True, remote = Some svcs\<rparr>, isConnected := True,
               transport := ?pre @ e1\<rparr>"
  from writeControlRegister_frame [of ?s4] obtain ok e2 where
    w: "writeControlRegister ?s4 = (ok, ?s4\<lparr>transport := transport ?s4 @ e2\<rparr>)" by blast
  have "connectToDevice P sg world s = Inr (True, ?s4\<lparr>transport := transport ?s4 @ e2\<rparr>)"
    using assms e1 w by (cases "pClient s") (simp_all add: connectToDevice_def Let_def onConnect_def)
  then have "connectToDevice P sg world s =
     Inr (True,
          s\<lparr>pClient := Some \<lparr>link_up = True, remote = Some svcs\<rparr>, isConnected := True,
            transport := ?pre @ (e1 @ e2)\<rparr>)" by simp
  then show ?thesis by (intro exI [of _ "e1 @ e2"]) simp
qed

section \<open>A failed connection\<close>

lemma picked_target: "targetDevice picked = Some (bike ''24:0a'' (- 40))"
  by (simp add: picked_def)

text \<open>
  Claim C2, as the code has it. From a session with a bound target, when the connection
  attempt fails (\<^verbatim>\<open>connect\<close> returns false, or the link comes up and \<^verbatim>\<open>getServices\<close>
  returns null), \<open>connectOrRescan\<close> ends in the scanning state: the target slot is empty,
  the registry is empty, both flags are down, and the last two calls on the stack clear
  the scan results and start a scan. The client object created for the attempt is not
  discarded: \<open>pClient\<close> still holds it, and the calls made are the teardown of an earlier
  client if there was one, the creation of the new client, the connection attempt, and
  the two scan calls, with no deletion after the creation.
\<close>

theorem connectOrRescan_failure:
  assumes "targetDevice s = Some tgt"
    and "\<not> accepts (world (adv_address tgt)) \<or> gatt (world (adv_address tgt)) = None"
  shows "\<exists>s'. connectOrRescan P sg world s = Inr s'
          \<and> targetDevice s' = None \<and> foundDevices s' = []
          \<and> \<not> waitingForUserInput s' \<and> \<not> scanCompleted s'
          \<and> pClient s' = Some \<lparr>link_up = accepts (world (adv_address tgt)), remote = None\<rparr>
          \<and> transport s' =
              transport s
              @ (case pClient s of None \<Rightarrow> [] | Some old \<Rightarrow> [ClientDisconnect, ClientDelete])
              @ [ClientCreate, ClientConnect (adv_address tgt), ScanClearResults, ScanStart 5]"
proof (cases "accepts (world (adv_address tgt))")
  case False
  from connectToDevice_refused [of s tgt world P sg] assms(1) False
  show ?thesis by (simp add: connectOrRescan_def startScan_def)
next
  case True
  with assms(2) have "gatt (world (adv_address tgt)) = None" by simp
  with connectToDevice_no_services [of s tgt world P sg] assms(1) True
  show ?thesis by (simp add: connectOrRescan_def startScan_def)
qed

text \<open>
  The theorem of C2 on the bench session with the first bike as its target, for a peer
  that refuses the connection and for one that accepts it and lists no services, on
  every platform.
\<close>

theorem connectOrRescan_failure_witness:
  "\<forall>P. (\<exists>s'. connectOrRescan P False refusing picked = Inr s'
          \<and> targetDevice s' = None \<and> foundDevices s' = []
          \<and> \<not> waitingForUserInput s' \<and> \<not> scanCompleted s'
          \<and> pClient s' = Some \<lparr>link_up = False, remote = None\<rparr>
          \<and> transport s' = [ScanClearResults, ScanStart 5, ClientCreate, ClientConnect ''24:0a'',
               ScanClearResults, ScanStart 5])
   \<and> (\<exists>s'. connectOrRescan P False mute picked = Inr s'
          \<and> targetDevice s' = None \<and> foundDevices s' = []
          \<and> \<not> waitingForUserInput s' \<and> \<not> scanCompleted s'
          \<and> pClient s' = Some \<lparr>link_up = True, remote = None\<rparr>
          \<and> transport s' = [ScanClearResults, ScanStart 5, ClientCreate, ClientConnect ''24:0a'',
               ScanClearResults, ScanStart 5])"
proof
  fix P :: "'d fpu"
  have r: "\<not> accepts (refusing (adv_address (bike ''24:0a'' (- 40))))
           \<or> gatt (refusing (adv_address (bike ''24:0a'' (- 40)))) = None"
    by (simp add: refusing_def)
  have m: "\<not> accepts (mute (adv_address (bike ''24:0a'' (- 40))))
           \<or> gatt (mute (adv_address (bike ''24:0a'' (- 40)))) = None"
    by (simp add: mute_def)
  have p: "pClient picked = None" "transport picked = [ScanClearResults, ScanStart 5]"
    by (simp_all add: picked_def awaiting_def heard_eq initial_def)
  show "(\<exists>s'. connectOrRescan P False refusing picked = Inr s'
          \<and> targetDevice s' = None \<and> foundDevices s' = []
          \<and> \<not> waitingForUserInput s' \<and> \<not> scanCompleted s'
          \<and> pClient s' = Some \<lparr>link_up = False, remote = None\<rparr>
          \<and> transport s' = [ScanClearResults, ScanStart 5, ClientCreate, ClientConnect ''24:0a'',
               ScanClearResults, ScanStart 5])
   \<and> (\<exists>s'. connectOrRescan P False mute picked = Inr s'
          \<and> targetDevice s' = None \<and> foundDevices s' = []
          \<and> \<not> waitingForUserInput s' \<and> \<not> scanCompleted s'
          \<and> pClient s' = Some \<lparr>link_up = True, remote = None\<rparr>
          \<and> transport s' = [ScanClearResults, ScanStart 5, ClientCreate, ClientConnect ''24:0a'',
               ScanClearResults, ScanStart 5])"
    using connectOrRescan_failure [of picked "bike ''24:0a'' (- 40)" refusing P False]
      connectOrRescan_failure [of picked "bike ''24:0a'' (- 40)" mute P False]
      picked_target r m
    by (simp add: p bike_def refusing_def mute_def)
qed

text \<open>
  Claim C2 as stated fails. The bench session with the first bike as its target and a
  peer that refuses the connection: after \<open>connectOrRescan\<close>, whatever the platform, the
  session still holds the client created for the attempt, and no client was deleted.
\<close>

theorem connectOrRescan_keeps_client_counterexample:
  "\<forall>P. connectOrRescan P False refusing picked =
     Inr (picked\<lparr>pClient := Some \<lparr>link_up = False, remote = None\<rparr>, targetDevice := None,
                 foundDevices := [], scanCompleted := False,
                 transport := [ScanClearResults, ScanStart 5, ClientCreate, ClientConnect ''24:0a'',
                   ScanClearResults, ScanStart 5]\<rparr>)
   \<and> pClient (picked\<lparr>pClient := Some \<lparr>link_up = False, remote = None\<rparr>, targetDevice := None,
                 foundDevices := [], scanCompleted := False,
                 transport := [ScanClearResults, ScanStart 5, ClientCreate, ClientConnect ''24:0a'',
                   ScanClearResults, ScanStart 5]\<rparr>) \<noteq> None
   \<and> ClientDelete \<notin> set [ScanClearResults, ScanStart 5, ClientCreate, ClientConnect ''24:0a'',
                   ScanClearResults, ScanStart 5]"
proof
  fix P :: "'d fpu"
  have p: "pClient picked = None" "transport picked = [ScanClearResults, ScanStart 5]"
    "waitingForUserInput picked = False"
    by (simp_all add: picked_def awaiting_def heard_eq initial_def)
  have "connectToDevice P False refusing picked =
      Inr (False, picked\<lparr>pClient := Some \<lparr>link_up = False, remote = None\<rparr>,
        transport := [ScanClearResults, ScanStart 5, ClientCreate, ClientConnect ''24:0a'']\<rparr>)"
    using connectToDevice_refused [of picked "bike ''24:0a'' (- 40)" refusing P False]
      picked_target
    by (simp add: p refusing_def bike_def)
  then show "connectOrRescan P False refusing picked =
     Inr (picked\<lparr>pClient := Some \<lparr>link_up = False, remote = None\<rparr>, targetDevice := None,
                 foundDevices := [], scanCompleted := False,
                 transport := [ScanClearResults, ScanStart 5, ClientCreate, ClientConnect ''24:0a'',
                   ScanClearResults, ScanStart 5]\<rparr>)
   \<and> pClient (picked\<lparr>pClient := Some \<lparr>link_up = False, remote = None\<rparr>, targetDevice := None,
                 foundDevices := [], scanCompleted := False,
                 transport := [ScanClearResults, ScanStart 5, ClientCreate, ClientConnect ''24:0a'',
                   ScanClearResults, ScanStart 5]\<rparr>) \<noteq> None
   \<and> ClientDelete \<notin> set [ScanClearResults, ScanStart 5, ClientCreate, ClientConnect ''24:0a'',
                   ScanClearResults, ScanStart 5]"
    by (simp add: connectOrRescan_def startScan_def picked_def)
qed

section \<open>The selection\<close>

lemma positive_selection:
  fixes selection :: "32 word"
  assumes "0 < sint selection"
  shows "unat selection = nat (sint selection)" and "unat (selection - 1) = nat (sint selection) - 1"
proof -
  have b: "uint selection < 4294967296" using uint_bounded [of selection] by simp
  have "sint selection = (if uint selection < 2147483648 then uint selection
                          else uint selection - 4294967296)"
    using sint_of_uint [of selection] by simp
  with assms b have u: "uint selection = sint selection"
    by (cases "uint selection < 2147483648") simp_all
  then show n: "unat selection = nat (sint selection)" by (simp add: unat_eq_nat_uint)
  from assms u have "selection \<noteq> 0" by auto
  then have "unat (selection - 1) = unat selection - 1" by (rule unat_minus_one)
  with n show "unat (selection - 1) = nat (sint selection) - 1" by simp
qed

lemma handleSelection_rejects:
  assumes "sint selection \<le> 0 \<or> int (length (sortedDevices s)) < sint selection"
  shows "handleSelection P sg world selection s = Inr s"
proof (cases "0 < sint selection")
  case False
  then show ?thesis by (simp add: handleSelection_def)
next
  case True
  with assms have "int (length (sortedDevices s)) < sint selection" by simp
  then have "\<not> unat selection \<le> length (sortedDevices s)"
    using positive_selection(1) [OF True] by simp
  then show ?thesis by (simp add: handleSelection_def)
qed

lemma snapshot_known_lookup:
  "snapshot_known s \<Longrightarrow> i < length (sortedDevices s) \<Longrightarrow>
   \<exists>v. map_of (foundDevices s) (fst (sortedDevices s ! i)) = Some v"
  by (auto simp: snapshot_known_def list_all_length)

lemma bindTarget_valid:
  assumes "1 \<le> sint selection" and "sint selection \<le> int (length (sortedDevices s))"
    and "pointers_live (foundDevices s)" and "snapshot_known s"
  shows "\<exists>d r. bindTarget s selection =
              Inr (s\<lparr>targetDevice := Some d, deviceFound := True, waitingForUserInput := False\<rparr>)
          \<and> adv_address d = fst (sortedDevices s ! (nat (sint selection) - 1))
          \<and> map_of (foundDevices s) (adv_address d) = Some (Some d, r)"
proof -
  let ?i = "nat (sint selection) - 1"
  from assms(1) have pos: "0 < sint selection" by simp
  from assms(1,2) have i: "?i < length (sortedDevices s)" by linarith
  from snapshot_known_lookup [OF assms(4) i] obtain v where
    v: "map_of (foundDevices s) (fst (sortedDevices s ! ?i)) = Some v" by blast
  from pointers_live_lookup [OF assms(3) v] obtain d where
    d: "fst v = Some d" "adv_address d = fst (sortedDevices s ! ?i)" by blast
  have "bindTarget s selection =
      Inr (s\<lparr>targetDevice := Some d, deviceFound := True, waitingForUserInput := False\<rparr>)"
    unfolding bindTarget_def Let_def positive_selection(2) [OF pos] map_index_known [OF v]
    by (simp add: d)
  moreover from v d have "map_of (foundDevices s) (adv_address d) = Some (Some d, snd v)"
    by (cases v) simp
  ultimately show ?thesis using d(2) by blast
qed

lemma connectOrRescan_success:
  assumes "targetDevice s = Some tgt" and "accepts (world (adv_address tgt))"
    and "gatt (world (adv_address tgt)) \<noteq> None"
  shows "\<exists>s'. connectOrRescan P sg world s = Inr s' \<and> targetDevice s' = Some tgt"
proof -
  from assms(3) obtain svcs where "gatt (world (adv_address tgt)) = Some svcs" by blast
  with connectToDevice_explored [of s tgt world svcs P sg] assms(1,2)
  obtain evs where "connectToDevice P sg world s =
     Inr (True,
          s\<lparr>pClient := Some \<lparr>link_up = True, remote = Some svcs\<rparr>, isConnected := True,
            transport := transport s
              @ (case pClient s of None \<Rightarrow> [] | Some old \<Rightarrow> [ClientDisconnect, ClientDelete])
              @ [ClientCreate, ClientConnect (adv_address tgt)] @ evs\<rparr>)" by blast
  with assms(1) show ?thesis by (simp add: connectOrRescan_def)
qed

lemma awaiting_facts:
  "sortedDevices awaiting = [(''24:0a'', - 40), (''24:0c'', - 55), (''24:0b'', - 62)]"
  "pointers_live (foundDevices awaiting)"
  "snapshot_known awaiting"
  by (simp_all add: awaiting_def heard_eq pointers_live_def snapshot_known_def bike_def)

text \<open>
  Claim C8. With a displayed list of N devices, a selection that is zero, negative or
  greater than N leaves the session exactly as it was. For a selection within 1..N (on a
  session whose registry entries point to devices with the entry's address, and whose
  displayed addresses are registry keys), the device bound as the target is the
  registry's device with the address at that position of the displayed list; binding
  changes nothing else but the two flags, the connection attempt is made from that
  state, and when the peer accepts and lists its services the target stays bound to that
  device.
\<close>

theorem handleSelection_index:
  "(sint selection \<le> 0 \<or> int (length (sortedDevices s)) < sint selection \<longrightarrow>
      handleSelection P sg world selection s = Inr s)
   \<and> (1 \<le> sint selection \<and> sint selection \<le> int (length (sortedDevices s))
        \<and> pointers_live (foundDevices s) \<and> snapshot_known s \<longrightarrow>
      (\<exists>d r. adv_address d = fst (sortedDevices s ! (nat (sint selection) - 1))
           \<and> map_of (foundDevices s) (adv_address d) = Some (Some d, r)
           \<and> bindTarget s selection =
               Inr (s\<lparr>targetDevice := Some d, deviceFound := True, waitingForUserInput := False\<rparr>)
           \<and> handleSelection P sg world selection s =
               connectOrRescan P sg world
                 (s\<lparr>targetDevice := Some d, deviceFound := True, waitingForUserInput := False\<rparr>)
           \<and> (accepts (world (adv_address d)) \<and> gatt (world (adv_address d)) \<noteq> None \<longrightarrow>
                (\<exists>s'. handleSelection P sg world selection s = Inr s'
                      \<and> targetDevice s' = Some d))))"
proof -
  have valid: "\<exists>d r. adv_address d = fst (sortedDevices s ! (nat (sint selection) - 1))
           \<and> map_of (foundDevices s) (adv_address d) = Some (Some d, r)
           \<and> bindTarget s selection =
               Inr (s\<lparr>targetDevice := Some d, deviceFound := True, waitingForUserInput := False\<rparr>)
           \<and> handleSelection P sg world selection s =
               connectOrRescan P sg world
                 (s\<lparr>targetDevice := Some d, deviceFound := True, waitingForUserInput := False\<rparr>)
           \<and> (accepts (world (adv_address d)) \<and> gatt (world (adv_address d)) \<noteq> None \<longrightarrow>
                (\<exists>s'. handleSelection P sg world selection s = Inr s'
                      \<and> targetDevice s' = Some d))"
    if a: "1 \<le> sint selection" "sint selection \<le> int (length (sortedDevices s))"
      "pointers_live (foundDevices s)" "snapshot_known s"
  proof -
    from bindTarget_valid [OF a] obtain d r where
      b: "bindTarget s selection =
              Inr (s\<lparr>targetDevice := Some d, deviceFound := True, waitingForUserInput := False\<rparr>)"
      and ad: "adv_address d = fst (sortedDevices s ! (nat (sint selection) - 1))"
      and reg: "map_of (foundDevices s) (adv_address d) = Some (Some d, r)" by blast
    let ?s1 = "s\<lparr>targetDevice := Some d, deviceFound := True, waitingForUserInput := False\<rparr>"
    from a(1) have pos: "0 < sint selection" by simp
    from a(1,2) have "unat selection \<le> length (sortedDevices s)"
      using positive_selection(1) [OF pos] by simp
    with pos b have h: "handleSelection P sg world selection s = connectOrRescan P sg world ?s1"
      by (simp add: handleSelection_def)
    have t: "targetDevice ?s1 = Some d" by simp
    have ok: "\<exists>s'. handleSelection P sg world selection s = Inr s' \<and> targetDevice s' = Some d"
      if "accepts (world (adv_address d))" "gatt (world (adv_address d)) \<noteq> None"
      using connectOrRescan_success [of ?s1 d world P sg] t that h by simp
    from ad reg b h ok show ?thesis by blast
  qed
  from handleSelection_rejects [of selection s P sg world] valid show ?thesis by blast
qed

text \<open>
  The theorem of C8 on the bench session with three devices displayed, on every
  platform: the selections 0, -1 and 4 are rejected, and the selection 2 binds the device
  at the second position.
\<close>

theorem handleSelection_index_witness:
  "\<forall>P. handleSelection P False friendly 0 awaiting = Inr awaiting
   \<and> handleSelection P False friendly (- 1) awaiting = Inr awaiting
   \<and> handleSelection P False friendly 4 awaiting = Inr awaiting
   \<and> (\<exists>d r. adv_address d = ''24:0c''
         \<and> map_of (foundDevices awaiting) (adv_address d) = Some (Some d, r)
         \<and> bindTarget awaiting 2 =
             Inr (awaiting\<lparr>targetDevice := Some d, deviceFound := True,
                           waitingForUserInput := False\<rparr>)
         \<and> (\<exists>s'. handleSelection P False friendly 2 awaiting = Inr s'
                \<and> targetDevice s' = Some d))"
proof
  fix P :: "'d fpu"
  have a: "handleSelection P False friendly 0 awaiting = Inr awaiting"
    using handleSelection_index [of 0 awaiting P False friendly] by simp
  have b: "handleSelection P False friendly (- 1) awaiting = Inr awaiting"
    using handleSelection_index [of "- 1" awaiting P False friendly] by simp
  have c: "handleSelection P False friendly 4 awaiting = Inr awaiting"
    using handleSelection_index [of 4 awaiting P False friendly]
    by (simp add: awaiting_facts)
  have d: "\<exists>d r. adv_address d = ''24:0c''
         \<and> map_of (foundDevices awaiting) (adv_address d) = Some (Some d, r)
         \<and> bindTarget awaiting 2 =
             Inr (awaiting\<lparr>targetDevice := Some d, deviceFound := True,
                           waitingForUserInput := False\<rparr>)
         \<and> (\<exists>s'. handleSelection P False friendly 2 awaiting = Inr s'
                \<and> targetDevice s' = Some d)"
    using handleSelection_index [of 2 awaiting P False friendly]
    by (simp add: awaiting_facts friendly_def) blast
  from a b c d show "handleSelection P False friendly 0 awaiting = Inr awaiting
   \<and> handleSelection P False friendly (- 1) awaiting = Inr awaiting
   \<and> handleSelection P False friendly 4 awaiting = Inr awaiting
   \<and> (\<exists>d r. adv_address d = ''24:0c''
         \<and> map_of (foundDevices awaiting) (adv_address d) = Some (Some d, r)
         \<and> bindTarget awaiting 2 =
             Inr (awaiting\<lparr>targetDevice := Some d, deviceFound := True,
                           waitingForUserInput := False\<rparr>)
         \<and> (\<exists>s'. handleSelection P False friendly 2 awaiting = Inr s'
                \<and> targetDevice s' = Some d))"
    by blast
qed

text \<open>
  The two conditions under which a selection in range was treated hold whenever a
  selection is awaited: they hold after \<open>displayFoundDevices\<close> on the registry of a scan
  round, and advertisements that arrive later keep them.
\<close>

lemma set_map_assign: "set (map_assign m k v) \<subseteq> insert (k, v) (set m)"
proof (induction m k v rule: map_assign.induct)
  case (1 k v)
  show ?case by simp
next
  case (2 k' v' m k v)
  show ?case
  proof (cases "k < k'")
    case True
    then show ?thesis by simp
  next
    case False
    show ?thesis
    proof (cases "k = k'")
      case True
      then show ?thesis by auto
    next
      case ne: False
      from "2.IH" [OF False ne] have "set (map_assign m k v) \<subseteq> insert (k, v) (set m)" .
      with False ne show ?thesis by auto
    qed
  qed
qed

lemma onResult_keeps_invariants:
  assumes "pointers_live (foundDevices s)" and "snapshot_known s"
  shows "pointers_live (foundDevices (onResult s a)) \<and> snapshot_known (onResult s a)"
proof (cases "admitted a")
  case False
  with assms show ?thesis by (simp add: onResult_not_admitted)
next
  case True
  let ?reg = "map_assign (foundDevices s) (adv_address a) (Some a, adv_rssi a)"
  from assms(1) have old: "\<forall>item\<in>set (foundDevices s).
      map_option adv_address (fst (snd item)) = Some (fst item)"
    unfolding pointers_live_def list_all_iff .
  have "map_option adv_address (fst (snd item)) = Some (fst item)" if "item \<in> set ?reg" for item
  proof -
    from that set_map_assign [of "foundDevices s" "adv_address a" "(Some a, adv_rssi a)"]
    have "item = (adv_address a, Some a, adv_rssi a) \<or> item \<in> set (foundDevices s)"
      by blast
    then show ?thesis
    proof
      assume "item = (adv_address a, Some a, adv_rssi a)"
      then show ?thesis by simp
    next
      assume "item \<in> set (foundDevices s)"
      with old show ?thesis by blast
    qed
  qed
  then have live: "pointers_live ?reg" unfolding pointers_live_def list_all_iff by blast
  from assms(2) have known: "\<forall>row\<in>set (sortedDevices s). map_of (foundDevices s) (fst row) \<noteq> None"
    unfolding snapshot_known_def list_all_iff .
  have "map_of ?reg (fst row) \<noteq> None" if "row \<in> set (sortedDevices s)" for row
  proof (cases "fst row = adv_address a")
    case True
    then show ?thesis by (simp only: map_of_map_assign) simp
  next
    case False
    from known that have "map_of (foundDevices s) (fst row) \<noteq> None" by blast
    with False show ?thesis by (simp only: map_of_map_assign) simp
  qed
  then have "snapshot_known (s\<lparr>foundDevices := ?reg\<rparr>)"
    unfolding snapshot_known_def list_all_iff by simp
  with live True show ?thesis by (simp add: onResult_admitted)
qed

lemma displayFoundDevices_invariants:
  assumes "sort_contract std_sort by_rssi" and "pointers_live (foundDevices s)"
    and "displayFoundDevices std_sort s = Inr s'"
  shows "pointers_live (foundDevices s') \<and> snapshot_known s' \<and> waitingForUserInput s'"
proof -
  let ?pairs = "pairs_of (foundDevices s)"
  let ?snap = "std_sort by_rssi ?pairs"
  from assms(1) have "mset ?snap = mset ?pairs" by (simp add: sort_contract_def)
  then have "set ?snap = set ?pairs" by (rule mset_eq_setD)
  then have keys: "\<forall>row\<in>set ?snap. fst row \<in> fst ` set (foundDevices s)"
    using keys_pairs_of [of "foundDevices s"] by blast
  from show_rows_known [OF assms(2) keys]
  have "displayFoundDevices std_sort s =
          Inr (s\<lparr>sortedDevices := ?snap, waitingForUserInput := True\<rparr>)"
    by (simp add: displayFoundDevices_def pairs_of_def [symmetric] Let_def)
  with assms(3) have s': "s' = s\<lparr>sortedDevices := ?snap, waitingForUserInput := True\<rparr>" by simp
  have "\<forall>row\<in>set ?snap. map_of (foundDevices s) (fst row) \<noteq> None"
    using keys by (simp add: map_of_eq_None_iff)
  then show ?thesis using assms(2) by (simp add: s' snapshot_known_def list_all_iff)
qed

section \<open>Lines that are not numbers\<close>

lemma dropWhile_head: "dropWhile P xs = c # cs \<Longrightarrow> \<not> P c"
  by (metis hd_dropWhile list.distinct(1) list.sel(1))

lemma rstrip_prefix: "\<exists>sp. xs = rev (dropWhile P (rev xs)) @ sp"
proof -
  have "rev (dropWhile P (rev xs)) @ rev (takeWhile P (rev xs))
      = rev (takeWhile P (rev xs) @ dropWhile P (rev xs))"
    by (simp only: rev_append)
  also have "\<dots> = rev (rev xs)" by (simp only: takeWhile_dropWhile_id)
  also have "\<dots> = xs" by simp
  finally have "xs = rev (dropWhile P (rev xs)) @ rev (takeWhile P (rev xs))" by (rule sym)
  then show ?thesis by blast
qed

lemma trim_Nil: "dropWhile isspace line = [] \<Longrightarrow> trim line = []"
proof -
  assume a: "dropWhile isspace line = []"
  have "trim line = rev (dropWhile isspace (rev []))" unfolding trim_def a ..
  then show ?thesis by simp
qed

lemma trim_Cons:
  assumes "dropWhile isspace line = c # cs"
  shows "trim line = c # rev (dropWhile isspace (rev cs))"
proof -
  from assms have c: "\<not> isspace c" by (rule dropWhile_head)
  have "dropWhile isspace (rev cs @ [c]) = dropWhile isspace (rev cs) @ [c]"
    using c by (simp add: dropWhile_append)
  then show ?thesis using assms by (simp add: trim_def)
qed

lemma digits_value_none: "xs = [] \<or> \<not> isdigit (hd xs) \<Longrightarrow> digits_value xs 0 = 0"
  by (cases xs) auto

lemma sign_chars:
  "\<not> isdigit CHR ''-''" "\<not> isdigit CHR ''+''"
  by (simp_all add: isdigit_def)

lemma atol_no_number:
  assumes "\<not> starts_with_number line"
  shows "atol (trim line) = 0"
proof (cases "dropWhile isspace line")
  case Nil
  then show ?thesis by (simp add: trim_Nil atol_def)
next
  case (Cons c cs)
  let ?cs' = "rev (dropWhile isspace (rev cs))"
  from Cons have c: "\<not> isspace c" by (rule dropWhile_head)
  have t: "trim line = c # ?cs'" using Cons by (rule trim_Cons)
  then have dw: "dropWhile isspace (trim line) = c # ?cs'" using c by simp
  from rstrip_prefix [of cs isspace] obtain sp where sp: "cs = ?cs' @ sp" by blast
  show ?thesis
  proof (cases "c = CHR ''-'' \<or> c = CHR ''+''")
    case True
    with assms Cons have nd: "cs = [] \<or> \<not> isdigit (hd cs)"
      by (auto simp: starts_with_number_def split: list.splits)
    have "?cs' = [] \<or> \<not> isdigit (hd ?cs')"
    proof (cases ?cs')
      case Nil
      then show ?thesis by simp
    next
      case (Cons d ds)
      with sp have "hd cs = d" by (metis append_Cons list.sel(1))
      moreover from Cons sp have "cs \<noteq> []" by auto
      ultimately show ?thesis using nd Cons by simp
    qed
    then have "digits_value ?cs' 0 = 0" by (rule digits_value_none)
    with True show ?thesis by (auto simp: atol_def dw clamp_long_def)
  next
    case False
    with assms Cons have "\<not> isdigit c" by (simp add: starts_with_number_def)
    then have "digits_value (c # ?cs') 0 = 0" by simp
    with False show ?thesis by (simp add: atol_def dw clamp_long_def)
  qed
qed

text \<open>
  Claim C10, as the code has it. A line that does not start with a number (after leading
  white space and one optional sign, no digit comes next: the empty line, a line of
  letters) is parsed as 0 and rejected: \<open>processUserSelection\<close> leaves the session exactly
  as it was, so the selection is still awaited, no target is bound and no connection is
  attempted.
\<close>

theorem processUserSelection_no_number:
  "\<not> starts_with_number line \<longrightarrow>
     toInt (trim line) = 0 \<and> processUserSelection P sg world (Some line) s = Inr s"
proof
  assume "\<not> starts_with_number line"
  then have z: "toInt (trim line) = 0" by (simp add: toInt_def atol_no_number)
  have "handleSelection P sg world 0 s = Inr s" by (simp add: handleSelection_def)
  with z show "toInt (trim line) = 0 \<and> processUserSelection P sg world (Some line) s = Inr s"
    by (simp add: processUserSelection_def)
qed

text \<open>
  The theorem of C10 at the empty line, at a line of letters and at a sign before a
  letter, on every platform.
\<close>

theorem processUserSelection_no_number_witness:
  "\<forall>P. toInt (trim '''') = 0
   \<and> processUserSelection P False friendly (Some '''') awaiting = Inr awaiting
   \<and> toInt (trim '' abc '') = 0
   \<and> processUserSelection P False friendly (Some '' abc '') awaiting = Inr awaiting
   \<and> toInt (trim ''-x1'') = 0
   \<and> processUserSelection P False friendly (Some ''-x1'') awaiting = Inr awaiting"
proof
  fix P :: "'d fpu"
  have n: "\<not> starts_with_number ''''" "\<not> starts_with_number '' abc ''"
    "\<not> starts_with_number ''-x1''"
    by (simp_all add: starts_with_number_def isspace_def isdigit_def)
  show "toInt (trim '''') = 0
   \<and> processUserSelection P False friendly (Some '''') awaiting = Inr awaiting
   \<and> toInt (trim '' abc '') = 0
   \<and> processUserSelection P False friendly (Some '' abc '') awaiting = Inr awaiting
   \<and> toInt (trim ''-x1'') = 0
   \<and> processUserSelection P False friendly (Some ''-x1'') awaiting = Inr awaiting"
    using processUserSelection_no_number [of "''''" P False friendly awaiting]
      processUserSelection_no_number [of "'' abc ''" P False friendly awaiting]
      processUserSelection_no_number [of "''-x1''" P False friendly awaiting] n
    by simp
qed

text \<open>
  Claim C10 as stated fails. The line "1x" is not a decimal number; it is parsed as 1,
  and on the bench session, whatever the platform, the first device of the list is bound
  and a connection to it is attempted.
\<close>

theorem processUserSelection_prefix_counterexample:
  "\<forall>P. \<not> is_decimal_number ''1x''
   \<and> toInt (trim ''1x'') = 1
   \<and> (case processUserSelection P False friendly (Some ''1x'') awaiting of
        Inl e \<Rightarrow> False
      | Inr s' \<Rightarrow> s' \<noteq> awaiting
                 \<and> targetDevice s' = Some (bike ''24:0a'' (- 40))
                 \<and> ClientConnect ''24:0a'' \<in> set (transport s'))"
proof
  fix P :: "'d fpu"
  have a: "\<not> is_decimal_number ''1x''" by (simp add: is_decimal_number_def isdigit_def)
  have b: "toInt (trim ''1x'') = 1"
    by (simp add: toInt_def trim_def atol_def isspace_def isdigit_def clamp_long_def)
  have bt: "bindTarget awaiting 1 =
      Inr (awaiting\<lparr>targetDevice := Some (bike ''24:0a'' (- 40)), deviceFound := True,
             waitingForUserInput := False\<rparr>)"
    by (simp add: bindTarget_def awaiting_def heard_eq map_index_def Let_def)
  let ?s1 = "awaiting\<lparr>targetDevice := Some (bike ''24:0a'' (- 40)), deviceFound := True,
             waitingForUserInput := False\<rparr>"
  have "targetDevice ?s1 = Some (bike ''24:0a'' (- 40))" by simp
  moreover have "accepts (friendly (adv_address (bike ''24:0a'' (- 40))))"
    "gatt (friendly (adv_address (bike ''24:0a'' (- 40)))) = Some (bike_gatt True)"
    by (simp_all add: friendly_def)
  ultimately obtain evs where c: "connectToDevice P False friendly ?s1 =
     Inr (True,
          ?s1\<lparr>pClient := Some \<lparr>link_up = True, remote = Some (bike_gatt True)\<rparr>, isConnected := True,
            transport := transport ?s1
              @ (case pClient ?s1 of None \<Rightarrow> [] | Some old \<Rightarrow> [ClientDisconnect, ClientDelete])
              @ [ClientCreate, ClientConnect (adv_address (bike ''24:0a'' (- 40)))] @ evs\<rparr>)"
    using connectToDevice_explored [of ?s1 "bike ''24:0a'' (- 40)" friendly "bike_gatt True"
        P False] by blast
  have w: "waitingForUserInput awaiting" by (simp add: awaiting_def)
  have h: "handleSelection P False friendly 1 awaiting =
      connectOrRescan P False friendly ?s1"
    by (simp add: handleSelection_def awaiting_facts bt)
  have "case processUserSelection P False friendly (Some ''1x'') awaiting of
        Inl e \<Rightarrow> False
      | Inr s' \<Rightarrow> s' \<noteq> awaiting
                 \<and> targetDevice s' = Some (bike ''24:0a'' (- 40))
                 \<and> ClientConnect ''24:0a'' \<in> set (transport s')"
    unfolding processUserSelection_def option.case b h connectOrRescan_def c
    using w by (auto simp: bike_def dest: arg_cong [where f = waitingForUserInput])
  with a b show "\<not> is_decimal_number ''1x''
   \<and> toInt (trim ''1x'') = 1
   \<and> (case processUserSelection P False friendly (Some ''1x'') awaiting of
        Inl e \<Rightarrow> False
      | Inr s' \<Rightarrow> s' \<noteq> awaiting
                 \<and> targetDevice s' = Some (bike ''24:0a'' (- 40))
                 \<and> ClientConnect ''24:0a'' \<in> set (transport s'))"
    by blast
qed

section \<open>The other entry points\<close>

text \<open>
  A disconnect reported by the stack releases the target and starts a scan on a cleared
  registry. A scan round that heard no bike starts the next one. While no selection is
  awaited, a pass of \<open>loop\<close> does not read the console.
\<close>

lemma onDisconnect_rescans:
  "targetDevice (onDisconnect s) = None \<and> foundDevices (onDisconnect s) = []
   \<and> \<not> isConnected (onDisconnect s) \<and> \<not> waitingForUserInput (onDisconnect s)
   \<and> transport (onDisconnect s) = transport s @ [ScanClearResults, ScanStart 5]"
  by (simp add: onDisconnect_def startScan_def)

lemma scanComplete_empty:
  "foundDevices s = [] \<Longrightarrow>
   scanComplete std_sort s =
     Inr (s\<lparr>scanCompleted := True, waitingForUserInput := False,
            transport := transport s @ [ScanClearResults, ScanStart 5]\<rparr>)"
  by (simp add: scanComplete_def startScan_def)

lemma scanComplete_displays:
  assumes "sort_contract std_sort by_rssi" and "pointers_live (foundDevices s)"
    and "foundDevices s \<noteq> []"
  shows "\<exists>s'. scanComplete std_sort s = Inr s' \<and> waitingForUserInput s' \<and> scanCompleted s'
          \<and> foundDevices s' = foundDevices s \<and> pointers_live (foundDevices s')
          \<and> snapshot_known s'"
proof -
  let ?snap = "std_sort by_rssi (pairs_of (foundDevices s))"
  from assms(1) have "mset ?snap = mset (pairs_of (foundDevices s))"
    by (simp add: sort_contract_def)
  then have "set ?snap = set (pairs_of (foundDevices s))" by (rule mset_eq_setD)
  then have "\<forall>row\<in>set ?snap. fst row \<in> fst ` set (foundDevices s)"
    using keys_pairs_of [of "foundDevices s"] by blast
  from show_rows_known [OF assms(2) this]
  have d: "displayFoundDevices std_sort s =
          Inr (s\<lparr>sortedDevices := ?snap, waitingForUserInput := True\<rparr>)"
    by (simp add: displayFoundDevices_def pairs_of_def [symmetric] Let_def)
  from displayFoundDevices_invariants [OF assms(1,2) d]
  have "pointers_live (foundDevices s) \<and> snapshot_known (s\<lparr>sortedDevices := ?snap, waitingForUserInput := True\<rparr>)"
    by simp
  then have "snapshot_known (s\<lparr>sortedDevices := ?snap, waitingForUserInput := True, scanCompleted := True\<rparr>)"
    by (simp add: snapshot_known_def)
  with assms(2,3) d show ?thesis by (simp add: scanComplete_def)
qed

lemma loop_not_waiting:
  "\<not> waitingForUserInput s \<Longrightarrow> pClient s = None \<Longrightarrow> loop P sg world serial s = Inr s"
  by (simp add: loop_def)

lemma loop_link_lost:
  assumes "\<not> waitingForUserInput s" and "pClient s = Some c" and "isConnected s"
    and "\<not> link_up c"
  shows "loop P sg world serial s =
     Inr (s\<lparr>pClient := None, isConnected := False, foundDevices := [], scanCompleted := False,
            transport := transport s
              @ [ClientDisconnect, ClientDelete, ScanClearResults, ScanStart 5]\<rparr>)"
  using assms by (simp add: loop_def startScan_def)

end
